theory Spec2Isabelle
  imports Complex_Main
begin

section \<open>Simple linear regression by gradient descent\<close>

text \<open>
  The development embeds \<^verbatim>\<open>learn_w_gradient_descent(xs, ys)\<close> of the notebook
  "Simple Linear Regression using Gradient Descent":
  \<^verbatim>\<open>
  def learn_w_gradient_descent(xs, ys):
      learning_rate = 0.1
      beta_0, beta_1 = np.random.randint(1, 10, size=2)
      print("Initial gradient descent beta_0: {}".format(beta_0))
      print("Initial gradient descent beta_1: {}".format(beta_1))
      for _ in range(5000):
          yhats = beta_0 + beta_1 * xs
          es = (ys - yhats)
          d_beta_0 = -es
          d_beta_1 = -es * xs
          beta_0 -= learning_rate * d_beta_0.mean()
          beta_1 -= learning_rate * d_beta_1.mean()
      print("Final gradient descent beta_0: {}".format(beta_0))
      print("Final gradient descent beta_1: {}\n".format(beta_1))
  \<close>
  The function has no \<^verbatim>\<open>return\<close> statement, draws its initial coefficients from
  numpy's global random state, and prints four lines.
\<close>

subsection \<open>Numbers\<close>

text \<open>
  A numpy \<^verbatim>\<open>float64\<close> is an IEEE 754 binary64 number: a finite value, one of the two
  infinities, or \<open>NaN\<close>. A finite value is given by the real number it stands for; the
  values that occur are the results of \<open>binary64\<close>, which rounds a real number to the
  nearest number with a 53-bit significand and an exponent of at least \<open>-1022\<close> (so
  subnormal numbers are included), a tie going to the even significand, and which
  overflows to an infinity when the rounded magnitude reaches \<open>2\<^sup>1\<^sup>0\<^sup>2\<^sup>4\<close>. Every arithmetic
  operation computes the exact result and rounds it once. Two things are left out: the
  sign of zero and the payload of \<open>NaN\<close>. The code divides only by the number of
  observations and never inspects a \<open>NaN\<close>, so neither can change a result other than
  the sign of a zero.
\<close>

datatype float64 = Fin real | PInf | MInf | NaN

definition round_half_even :: "real \<Rightarrow> int" where
  "round_half_even y =
     (if y - of_int \<lfloor>y\<rfloor> < 1 / 2 then \<lfloor>y\<rfloor>
      else if 1 / 2 < y - of_int \<lfloor>y\<rfloor> then \<lfloor>y\<rfloor> + 1
      else if even \<lfloor>y\<rfloor> then \<lfloor>y\<rfloor> else \<lfloor>y\<rfloor> + 1)"

text \<open>
  The binary exponent of a non-zero number, not below that of the smallest normal number,
  and the spacing of the \<^verbatim>\<open>float64\<close> values around it.
\<close>

definition exponent :: "real \<Rightarrow> int" where
  "exponent x = max \<lfloor>log 2 \<bar>x\<bar>\<rfloor> (- 1022)"

definition quantum :: "real \<Rightarrow> real" where
  "quantum x = 2 powr of_int (exponent x - 52)"

definition binary64 :: "real \<Rightarrow> float64" where
  "binary64 x =
     (if x = 0 then Fin 0
      else (let r = of_int (round_half_even (x / quantum x)) * quantum x
            in if 2 ^ 1024 \<le> \<bar>r\<bar> then (if 0 < x then PInf else MInf) else Fin r))"

instantiation float64 :: "{plus, minus, times, uminus}"
begin

fun uminus_float64 :: "float64 \<Rightarrow> float64" where
  "uminus_float64 (Fin a) = Fin (- a)"
| "uminus_float64 PInf = MInf"
| "uminus_float64 MInf = PInf"
| "uminus_float64 NaN = NaN"

fun plus_float64 :: "float64 \<Rightarrow> float64 \<Rightarrow> float64" where
  "plus_float64 (Fin a) (Fin b) = binary64 (a + b)"
| "plus_float64 NaN _ = NaN"
| "plus_float64 _ NaN = NaN"
| "plus_float64 PInf MInf = NaN"
| "plus_float64 MInf PInf = NaN"
| "plus_float64 PInf _ = PInf"
| "plus_float64 _ PInf = PInf"
| "plus_float64 MInf _ = MInf"
| "plus_float64 _ MInf = MInf"

definition minus_float64 :: "float64 \<Rightarrow> float64 \<Rightarrow> float64" where
  "minus_float64 a b = a + (- b)"

fun times_float64 :: "float64 \<Rightarrow> float64 \<Rightarrow> float64" where
  "times_float64 (Fin a) (Fin b) = binary64 (a * b)"
| "times_float64 NaN _ = NaN"
| "times_float64 _ NaN = NaN"
| "times_float64 PInf (Fin b) = (if b = 0 then NaN else if 0 < b then PInf else MInf)"
| "times_float64 MInf (Fin b) = (if b = 0 then NaN else if 0 < b then MInf else PInf)"
| "times_float64 (Fin a) PInf = (if a = 0 then NaN else if 0 < a then PInf else MInf)"
| "times_float64 (Fin a) MInf = (if a = 0 then NaN else if 0 < a then MInf else PInf)"
| "times_float64 PInf PInf = PInf"
| "times_float64 PInf MInf = MInf"
| "times_float64 MInf PInf = MInf"
| "times_float64 MInf MInf = PInf"

instance ..

end

text \<open>
  \<^verbatim>\<open>a / b\<close> on two \<^verbatim>\<open>float64\<close> scalars (numpy's \<^verbatim>\<open>true_divide\<close>): division by zero
  gives an infinity, or \<open>NaN\<close> for \<open>0 / 0\<close>, and a warning; it does not raise.
\<close>

fun true_divide :: "float64 \<Rightarrow> float64 \<Rightarrow> float64" where
  "true_divide (Fin a) (Fin b) =
     (if b = 0 then (if a = 0 then NaN else if 0 < a then PInf else MInf)
      else binary64 (a / b))"
| "true_divide NaN _ = NaN"
| "true_divide _ NaN = NaN"
| "true_divide (Fin a) _ = Fin 0"
| "true_divide PInf (Fin b) = (if 0 \<le> b then PInf else MInf)"
| "true_divide MInf (Fin b) = (if 0 \<le> b then MInf else PInf)"
| "true_divide _ _ = NaN"

text \<open>A value is rounded when it is a \<^verbatim>\<open>float64\<close>: every result of an operation is.\<close>

fun rounded :: "float64 \<Rightarrow> bool" where
  "rounded (Fin a) \<longleftrightarrow> binary64 a = Fin a"
| "rounded _ \<longleftrightarrow> True"

fun isfinite :: "float64 \<Rightarrow> bool" where
  "isfinite (Fin a) \<longleftrightarrow> True"
| "isfinite _ \<longleftrightarrow> False"

subsection \<open>Arrays\<close>

text \<open>
  \<^verbatim>\<open>xs\<close> and \<^verbatim>\<open>ys\<close> are the column vectors (shape \<open>(n, 1)\<close>) that the notebook
  passes to both \<^verbatim>\<open>learn_w_gradient_descent\<close> and scikit-learn's \<^verbatim>\<open>fit\<close>; a column
  vector is the list of its entries. Every numpy operator below returns a new array.
  A binary operator on two arrays broadcasts: shapes \<open>(n, 1)\<close> and \<open>(m, 1)\<close> combine when
  \<open>n = m\<close> or one of them is 1, and numpy raises \<^verbatim>\<open>ValueError\<close> otherwise.
\<close>

type_synonym ndarray = "float64 list"

datatype error = ValueError

definition broadcast ::
  "(float64 \<Rightarrow> float64 \<Rightarrow> float64) \<Rightarrow> ndarray \<Rightarrow> ndarray \<Rightarrow> error + ndarray" where
  "broadcast f a b =
     (if length a = length b then Inr (map2 f a b)
      else if length a = 1 then Inr (map (f (hd a)) b)
      else if length b = 1 then Inr (map (\<lambda>x. f x (hd b)) a)
      else Inl ValueError)"

text \<open>\<^verbatim>\<open>a - b\<close> and \<^verbatim>\<open>a * b\<close> on two arrays.\<close>

definition subtract :: "ndarray \<Rightarrow> ndarray \<Rightarrow> error + ndarray" where
  "subtract a b = broadcast (\<lambda>x y. x - y) a b"

definition multiply :: "ndarray \<Rightarrow> ndarray \<Rightarrow> error + ndarray" where
  "multiply a b = broadcast (\<lambda>x y. x * y) a b"

text \<open>\<^verbatim>\<open>s * a\<close> and \<^verbatim>\<open>s + a\<close> for a scalar \<open>s\<close>, and \<^verbatim>\<open>-a\<close>.\<close>

definition scalar_multiply :: "float64 \<Rightarrow> ndarray \<Rightarrow> ndarray" where
  "scalar_multiply s a = map (\<lambda>x. s * x) a"

definition scalar_add :: "float64 \<Rightarrow> ndarray \<Rightarrow> ndarray" where
  "scalar_add s a = map (\<lambda>x. s + x) a"

definition negative :: "ndarray \<Rightarrow> ndarray" where
  "negative a = map uminus a"

text \<open>
  \<^verbatim>\<open>np.add.reduce\<close> over all entries of a contiguous array, in the order numpy adds
  them (its pairwise summation). Fewer than 8 numbers are added from left to right,
  starting from 0. Up to 128 numbers are added in eight running sums \<open>r 0, ..., r 7\<close>,
  where \<open>r j\<close> takes the entries at the positions \<open>j, 8 + j, 16 + j, ...\<close> of the leading
  part whose length is a multiple of 8; the eight sums are added in pairs and the
  remaining entries are added from left to right. A longer array is cut in two, the
  first part of a length that is a multiple of 8, and the sums of the parts are added.
\<close>

definition sum_block :: "ndarray \<Rightarrow> float64" where
  "sum_block a =
     (let r = (\<lambda>j. foldl (+) (a ! j) (map (\<lambda>i. a ! (8 * i + j)) [1..<length a div 8]));
          res = ((r 0 + r 1) + (r 2 + r 3)) + ((r 4 + r 5) + (r 6 + r 7))
      in foldl (+) res (drop (length a - length a mod 8) a))"

function pairwise_sum :: "ndarray \<Rightarrow> float64" where
  "pairwise_sum a =
     (if length a < 8 then foldl (+) (Fin 0) a
      else if length a \<le> 128 then sum_block a
      else pairwise_sum (take (length a div 2 - length a div 2 mod 8) a) +
           pairwise_sum (drop (length a div 2 - length a div 2 mod 8) a))"
  by pat_completeness auto

termination
  by (relation "measure length") auto

declare pairwise_sum.simps [simp del]

definition add_reduce :: "ndarray \<Rightarrow> float64" where
  "add_reduce a = pairwise_sum a"

text \<open>
  \<^verbatim>\<open>a.mean()\<close>: the sum divided by the number of entries (an array holds fewer than
  \<open>2\<^sup>5\<^sup>3\<close> entries, so the count is a \<^verbatim>\<open>float64\<close> as it stands). For the empty array this is
  \<open>0 / 0\<close>, that is \<open>NaN\<close>; numpy warns and does not raise.
\<close>

definition mean :: "ndarray \<Rightarrow> float64" where
  "mean a = true_divide (add_reduce a) (Fin (real (length a)))"

subsection \<open>The interpreter state\<close>

text \<open>
  What a call can touch besides its local names: the arrays on the heap (an address is an
  index into the list; a new array is appended), the lines printed so far on standard
  output (format string and formatted value), and the state of numpy's global random
  generator. An argument of a call refers to an array that exists: its address is below
  the length of the heap. The two arguments may be the same array.

  Standard error is not part of the state. numpy reports a \<^verbatim>\<open>RuntimeWarning\<close> there
  when a mean is taken over an empty array and when an operation overflows or is invalid;
  whether and how often such a warning is shown depends on the warning filters of the
  interpreter. No statement below is about standard error.
\<close>

type_synonym addr = nat

datatype pyval = PNone | PInt int | PFloat float64

record 'g world =
  heap :: "ndarray list"
  stdout :: "(string \<times> pyval) list"
  rng :: 'g

definition new_array :: "ndarray \<Rightarrow> 'g world \<Rightarrow> addr \<times> 'g world" where
  "new_array a w = (length (heap w), w\<lparr>heap := heap w @ [a]\<rparr>)"

definition array_at :: "'g world \<Rightarrow> addr \<Rightarrow> ndarray" where
  "array_at w p = heap w ! p"

definition print :: "string \<Rightarrow> pyval \<Rightarrow> 'g world \<Rightarrow> 'g world" where
  "print fmt v w = w\<lparr>stdout := stdout w @ [(fmt, v)]\<rparr>"

subsection \<open>The trainer\<close>

text \<open>
  One pass through the body of the \<^verbatim>\<open>for\<close> loop. \<open>xs\<close> and \<open>ys\<close> are the addresses of
  the caller's arrays; \<open>t1\<close> and \<open>t2\<close> are the unnamed intermediate arrays
  \<^verbatim>\<open>beta_1 * xs\<close> and \<^verbatim>\<open>-es\<close> (unary minus binds tighter than \<^verbatim>\<open>*\<close>).
  The two augmented assignments rebind the scalars \<open>beta_0\<close> and \<open>beta_1\<close>.
\<close>

fun loop_body ::
  "float64 \<Rightarrow> addr \<Rightarrow> addr \<Rightarrow> float64 \<times> float64 \<Rightarrow> 'g world
     \<Rightarrow> (error + float64 \<times> float64) \<times> 'g world" where
  "loop_body learning_rate xs ys (beta_0, beta_1) w0 =
     (let (t1, w1) = new_array (scalar_multiply beta_1 (array_at w0 xs)) w0;
          (yhats, w2) = new_array (scalar_add beta_0 (array_at w1 t1)) w1
      in (case subtract (array_at w2 ys) (array_at w2 yhats) of
            Inl e \<Rightarrow> (Inl e, w2)
          | Inr r \<Rightarrow>
              (let (es, w3) = new_array r w2;
                   (d_beta_0, w4) = new_array (negative (array_at w3 es)) w3;
                   (t2, w5) = new_array (negative (array_at w4 es)) w4
               in (case multiply (array_at w5 t2) (array_at w5 xs) of
                     Inl e \<Rightarrow> (Inl e, w5)
                   | Inr p \<Rightarrow>
                       (let (d_beta_1, w6) = new_array p w5;
                            beta_0' = beta_0 - learning_rate * mean (array_at w6 d_beta_0);
                            beta_1' = beta_1 - learning_rate * mean (array_at w6 d_beta_1)
                        in (Inr (beta_0', beta_1'), w6))))))"

declare loop_body.simps [simp del]

text \<open>
  \<^verbatim>\<open>for _ in range(...)\<close>: the body runs once per element, in order; an exception
  leaves the loop at once.
\<close>

fun for_loop ::
  "nat list \<Rightarrow> float64 \<Rightarrow> addr \<Rightarrow> addr \<Rightarrow> float64 \<times> float64 \<Rightarrow> 'g world
     \<Rightarrow> (error + float64 \<times> float64) \<times> 'g world" where
  "for_loop [] learning_rate xs ys b w = (Inr b, w)"
| "for_loop (i # rest) learning_rate xs ys b w =
     (case loop_body learning_rate xs ys b w of
        (Inl e, w') \<Rightarrow> (Inl e, w')
      | (Inr b', w') \<Rightarrow> for_loop rest learning_rate xs ys b' w')"

text \<open>
  The whole function. The literal \<^verbatim>\<open>0.1\<close> is the \<^verbatim>\<open>float64\<close> nearest to one tenth.
  \<open>randint\<close> stands for \<^verbatim>\<open>np.random.randint(1, 10, size=2)\<close>: it
  reads the global generator state and returns the two integers drawn and the new state.
  The value returned on normal completion is \<^verbatim>\<open>None\<close>.
\<close>

definition learn_w_gradient_descent ::
  "('g \<Rightarrow> (int \<times> int) \<times> 'g) \<Rightarrow> addr \<Rightarrow> addr \<Rightarrow> 'g world \<Rightarrow> (error + pyval) \<times> 'g world" where
  "learn_w_gradient_descent randint xs ys w0 =
     (let learning_rate = binary64 (1 / 10);
          ((i0, i1), g) = randint (rng w0);
          w1 = w0\<lparr>rng := g\<rparr>;
          w2 = print ''Initial gradient descent beta_0: {}'' (PInt i0) w1;
          w3 = print ''Initial gradient descent beta_1: {}'' (PInt i1) w2
      in (case for_loop [0..<5000] learning_rate xs ys (Fin (of_int i0), Fin (of_int i1)) w3 of
            (Inl e, w4) \<Rightarrow> (Inl e, w4)
          | (Inr (beta_0, beta_1), w4) \<Rightarrow>
              (let w5 = print ''Final gradient descent beta_0: {}'' (PFloat beta_0) w4;
                   w6 = print (''Final gradient descent beta_1: {}'' @ [CHR 0x0A]) (PFloat beta_1) w5
               in (Inr PNone, w6))))"

subsection \<open>What one pass computes\<close>

text \<open>
  Two lengths are compatible when numpy can broadcast them against each other.
\<close>

definition compatible :: "ndarray \<Rightarrow> ndarray \<Rightarrow> bool" where
  "compatible a b \<longleftrightarrow> length a = length b \<or> length a = 1 \<or> length b = 1"

text \<open>
  The two numbers \<^verbatim>\<open>d_beta_0.mean()\<close> and \<^verbatim>\<open>d_beta_1.mean()\<close> of one pass, as a
  function of the contents \<open>X\<close>, \<open>Y\<close> of the two arrays and of the coefficient pair the
  pass starts from.
\<close>

fun gradient :: "ndarray \<Rightarrow> ndarray \<Rightarrow> float64 \<times> float64 \<Rightarrow> error + float64 \<times> float64" where
  "gradient X Y (beta_0, beta_1) =
     (case subtract Y (scalar_add beta_0 (scalar_multiply beta_1 X)) of
        Inl e \<Rightarrow> Inl e
      | Inr es \<Rightarrow>
          (case multiply (negative es) X of
             Inl e \<Rightarrow> Inl e
           | Inr d_beta_1 \<Rightarrow> Inr (mean (negative es), mean d_beta_1)))"

declare gradient.simps [simp del]

text \<open>
  \<open>n\<close> update steps in a row on the contents of the two arrays: each step takes the
  gradient at the pair the previous step produced and lowers both coefficients by the
  learning rate times their gradients.
\<close>

fun descend ::
  "nat \<Rightarrow> float64 \<Rightarrow> ndarray \<Rightarrow> ndarray \<Rightarrow> float64 \<times> float64 \<Rightarrow> error + float64 \<times> float64" where
  "descend 0 lr X Y b = Inr b"
| "descend (Suc n) lr X Y b =
     (case gradient X Y b of
        Inl e \<Rightarrow> Inl e
      | Inr (g0, g1) \<Rightarrow> descend n lr X Y (fst b - lr * g0, snd b - lr * g1))"

text \<open>The lines a call prints before and after the loop.\<close>

definition initial_lines :: "int \<times> int \<Rightarrow> (string \<times> pyval) list" where
  "initial_lines i =
     [(''Initial gradient descent beta_0: {}'', PInt (fst i)),
      (''Initial gradient descent beta_1: {}'', PInt (snd i))]"

definition final_lines :: "float64 \<times> float64 \<Rightarrow> (string \<times> pyval) list" where
  "final_lines c =
     [(''Final gradient descent beta_0: {}'', PFloat (fst c)),
      (''Final gradient descent beta_1: {}'' @ [CHR 0x0A], PFloat (snd c))]"

subsection \<open>Notions used to state convergence\<close>

text \<open>
  The mean and the variance of a non-empty list of reals, and what it means for a
  coefficient pair to lie within a tolerance of a pair of reals: both coefficients are
  finite and each differs from its target by less than the tolerance.
\<close>

definition avg :: "real list \<Rightarrow> real" where
  "avg zs = sum_list zs / real (length zs)"



text \<open>
  Notions used to bound rounding errors: a \<^verbatim>\<open>float64\<close> approximates a real number to
  within \<open>d\<close> when it is finite and differs from it by at most \<open>d\<close>; \<open>roundoff\<close> is the
  largest error of rounding a number of magnitude at most \<open>2\<^sup>2\<^sup>0\<close>.
\<close>

definition roundoff :: real where
  "roundoff = 2 ^ 20 / 2 ^ 53"

definition approx :: "real \<Rightarrow> float64 \<Rightarrow> real \<Rightarrow> bool" where
  "approx d f r \<longleftrightarrow> (\<exists>a. f = Fin a \<and> \<bar>a - r\<bar> \<le> d)"

section \<open>Properties of the arithmetic\<close>

subsection \<open>Rounding\<close>

lemma round_half_even_of_int [simp]: "round_half_even (of_int m) = m"
  by (simp add: round_half_even_def)

lemma round_half_even_error: "\<bar>of_int (round_half_even y) - y\<bar> \<le> 1 / 2"
  unfolding round_half_even_def by (auto simp: abs_le_iff)

lemma round_half_even_minus: "round_half_even (- y) = - round_half_even y"
proof (cases "y \<in> \<int>")
  case True
  then obtain m where "y = of_int m" by (auto elim: Ints_cases)
  then show ?thesis
    by (simp flip: of_int_minus)
next
  case False
  then have ne: "y \<noteq> of_int \<lfloor>y\<rfloor>"
    by (metis Ints_of_int)
  then have fl: "\<lfloor>- y\<rfloor> = - \<lfloor>y\<rfloor> - 1"
    by (simp add: floor_minus ceiling_altdef)
  have "of_int \<lfloor>y\<rfloor> \<le> y" by simp
  with ne have frac: "of_int \<lfloor>y\<rfloor> < y" "y < of_int \<lfloor>y\<rfloor> + 1"
    by linarith+
  show ?thesis
    unfolding round_half_even_def fl using frac by (auto simp: algebra_simps)
qed

lemma quantum_pos: "0 < quantum x"
  by (simp add: quantum_def)

lemma exponent_minus [simp]: "exponent (- x) = exponent x"
  by (simp add: exponent_def)

lemma quantum_minus [simp]: "quantum (- x) = quantum x"
  by (simp add: quantum_def)

lemma binary64_minus: "binary64 (- x) = - binary64 x"
  by (simp add: binary64_def Let_def round_half_even_minus)


lemma floor_log2_bounds:
  assumes "x \<noteq> 0"
  shows "2 powr of_int \<lfloor>log 2 \<bar>x\<bar>\<rfloor> \<le> \<bar>x\<bar>"
    and "\<bar>x\<bar> < 2 powr of_int (\<lfloor>log 2 \<bar>x\<bar>\<rfloor> + 1)"
  using floor_log_eq_powr_iff[of "\<bar>x\<bar>" 2 "\<lfloor>log 2 \<bar>x\<bar>\<rfloor>"] assms by simp_all

lemma floor_log2_less:
  assumes "x \<noteq> 0" and "\<bar>x\<bar> < 2 powr of_int n"
  shows "\<lfloor>log 2 \<bar>x\<bar>\<rfloor> < n"
proof -
  have "2 powr of_int \<lfloor>log 2 \<bar>x\<bar>\<rfloor> < (2::real) powr of_int n"
    using floor_log2_bounds(1)[OF assms(1)] assms(2) by linarith
  then show ?thesis by simp
qed

lemma floor_log2_le:
  assumes "x \<noteq> 0" and "\<bar>x\<bar> \<le> 2 powr of_int n"
  shows "\<lfloor>log 2 \<bar>x\<bar>\<rfloor> \<le> n"
proof -
  have "2 powr of_int \<lfloor>log 2 \<bar>x\<bar>\<rfloor> \<le> (2::real) powr of_int n"
    using floor_log2_bounds(1)[OF assms(1)] assms(2) by linarith
  then show ?thesis by simp
qed

lemma abs_less_exponent:
  assumes "x \<noteq> 0"
  shows "\<bar>x\<bar> < 2 powr of_int (exponent x + 1)"
proof -
  have "\<bar>x\<bar> < 2 powr of_int (\<lfloor>log 2 \<bar>x\<bar>\<rfloor> + 1)"
    by (rule floor_log2_bounds(2)[OF assms])
  also have "\<dots> \<le> 2 powr of_int (exponent x + 1)"
    by (simp add: exponent_def)
  finally show ?thesis .
qed

lemma two_powr_nat: "(2::real) powr of_int (int n) = 2 ^ n"
  by (simp add: powr_realpow)

lemma two_powr_add: "(2::real) powr of_int (a + int n) = 2 powr of_int a * 2 ^ n"
  by (simp add: powr_add powr_realpow)

lemma powr_int_is_int:
  assumes "0 \<le> j"
  shows "(2::real) powr of_int j = of_int (2 ^ nat j)"
  using assms by (simp add: powr_real_of_int)

text \<open>A number with a significand of at most 53 bits and an exponent in range is not changed.\<close>

lemma binary64_exact_gen:
  assumes x: "x = of_int m * 2 powr of_int j"
    and m: "\<bar>m\<bar> < 2 ^ 53" and j: "- 1074 \<le> j" and fin: "\<bar>x\<bar> < 2 ^ 1024"
  shows "binary64 x = Fin x"
proof (cases "x = 0")
  case True
  then show ?thesis by (simp add: binary64_def)
next
  case False
  have "\<bar>x\<bar> = of_int \<bar>m\<bar> * 2 powr of_int j"
    by (simp add: x abs_mult)
  also have "\<dots> < 2 ^ 53 * 2 powr of_int j"
  proof -
    have "real_of_int \<bar>m\<bar> < 2 ^ 53"
      using m by (metis of_int_less_iff of_int_numeral of_int_power)
    then show ?thesis by (intro mult_strict_right_mono) simp_all
  qed
  also have "\<dots> = 2 powr of_int (53 + j)"
    by (simp add: powr_add powr_realpow[symmetric, of 2 53, simplified] del: powr_realpow)
  finally have "\<lfloor>log 2 \<bar>x\<bar>\<rfloor> < 53 + j"
    by (rule floor_log2_less[OF False])
  with j have e: "exponent x - 52 \<le> j"
    by (simp add: exponent_def)
  define d where "d = j - (exponent x - 52)"
  have d: "0 \<le> d" using e by (simp add: d_def)
  have "x / quantum x = of_int m * 2 powr of_int d"
    by (simp add: x quantum_def d_def powr_diff)
  also have "\<dots> = of_int (m * 2 ^ nat d)"
    by (simp add: powr_int_is_int[OF d])
  finally have xq: "x / quantum x = of_int (m * 2 ^ nat d)" .
  have "round_half_even (x / quantum x) = m * 2 ^ nat d"
    unfolding xq by (rule round_half_even_of_int)
  then have "of_int (round_half_even (x / quantum x)) = x / quantum x"
    using xq by simp
  then have "of_int (round_half_even (x / quantum x)) * quantum x = x"
    using quantum_pos[of x] by simp
  with fin False show ?thesis
    by (simp add: binary64_def Let_def)
qed

lemma binary64_exact:
  assumes "x * 2 ^ k \<in> \<int>" and "\<bar>x * 2 ^ k\<bar> < 2 ^ 53" and "k \<le> 1074"
  shows "binary64 x = Fin x"
proof -
  from assms(1) obtain m where m: "x * 2 ^ k = of_int m" by (auto elim: Ints_cases)
  then have x: "x = of_int m * 2 powr of_int (- int k)"
    by (simp add: powr_minus powr_realpow field_simps)
  have "\<bar>real_of_int m\<bar> < 2 ^ 53" using assms(2) m by simp
  then have "\<bar>m\<bar> < 2 ^ 53"
    by (metis of_int_abs of_int_less_iff of_int_numeral of_int_power)
  moreover have "\<bar>x\<bar> < 2 ^ 1024"
  proof -
    have "\<bar>x\<bar> \<le> \<bar>x * 2 ^ k\<bar>"
      by (simp add: abs_mult mult_le_cancel_left1)
    also have "\<dots> < 2 ^ 53" by (rule assms(2))
    also have "\<dots> \<le> (2::real) ^ 1024" by (intro power_increasing) simp_all
    finally show ?thesis .
  qed
  ultimately show ?thesis
    using assms(3) by (intro binary64_exact_gen[OF x]) simp_all
qed

text \<open>Rounding a number of bounded size changes it by at most half the spacing there.\<close>

lemma binary64_error:
  assumes "\<bar>x\<bar> \<le> 2 ^ K" and "K \<le> 1000"
  shows "\<exists>r. binary64 x = Fin r \<and> \<bar>r - x\<bar> \<le> 2 ^ K / 2 ^ 53"
proof (cases "x = 0")
  case True
  then show ?thesis by (simp add: binary64_def)
next
  case False
  have "\<bar>x\<bar> \<le> 2 powr of_int (int K)"
    using assms(1) by (simp add: powr_realpow)
  then have "\<lfloor>log 2 \<bar>x\<bar>\<rfloor> \<le> int K"
    by (rule floor_log2_le[OF False])
  then have "exponent x \<le> int K"
    by (simp add: exponent_def)
  then have "quantum x \<le> 2 powr of_int (int K - 52)"
    by (simp add: quantum_def)
  also have "\<dots> = 2 powr real K / 2 powr real (52::nat)"
    by (simp add: powr_diff)
  also have "\<dots> = 2 ^ K / 2 ^ 52"
    by (simp only: powr_realpow[of 2, simplified])
  finally have q: "quantum x \<le> 2 ^ K / 2 ^ 52" .
  define r where "r = of_int (round_half_even (x / quantum x)) * quantum x"
  have "r - x = (of_int (round_half_even (x / quantum x)) - x / quantum x) * quantum x"
    using quantum_pos[of x] by (simp add: r_def field_simps)
  then have "\<bar>r - x\<bar> = \<bar>of_int (round_half_even (x / quantum x)) - x / quantum x\<bar> * quantum x"
    using quantum_pos[of x] by (simp add: abs_mult)
  also have "\<dots> \<le> 1 / 2 * quantum x"
    using quantum_pos[of x] by (intro mult_right_mono round_half_even_error) simp
  also have "\<dots> \<le> 2 ^ K / 2 ^ 53"
    using q by simp
  finally have err: "\<bar>r - x\<bar> \<le> 2 ^ K / 2 ^ 53" .
  have "(2::real) ^ K / 2 ^ 53 \<le> 2 ^ K" by (simp add: field_simps)
  with err assms(1) have "\<bar>r\<bar> \<le> 2 * 2 ^ K" by linarith
  also have "\<dots> = (2::real) ^ Suc K" by simp
  also have "\<dots> < 2 ^ 1024"
    using assms(2) by (intro power_strict_increasing) simp_all
  finally have "\<bar>r\<bar> < 2 ^ 1024" .
  with False err show ?thesis
    by (simp add: binary64_def Let_def r_def)
qed


text \<open>Rounding is idempotent: a rounded value is a \<open>float64\<close>.\<close>

lemma round_half_even_bound:
  assumes "\<bar>y\<bar> < of_int n"
  shows "\<bar>round_half_even y\<bar> \<le> n"
proof -
  have "\<bar>of_int (round_half_even y) - y\<bar> \<le> 1 / 2"
    by (rule round_half_even_error)
  with assms have "\<bar>real_of_int (round_half_even y)\<bar> < of_int n + 1"
    by linarith
  then have "real_of_int \<bar>round_half_even y\<bar> < real_of_int (n + 1)"
    by simp
  then have "\<bar>round_half_even y\<bar> < n + 1"
    by (simp only: of_int_less_iff)
  then show ?thesis by simp
qed

lemma binary64_idem:
  assumes "binary64 x = Fin r"
  shows "binary64 r = Fin r"
proof (cases "x = 0")
  case True
  with assms show ?thesis by (simp add: binary64_def)
next
  case False
  define M where "M = round_half_even (x / quantum x)"
  define j where "j = exponent x - 52"
  have q: "quantum x = 2 powr of_int j"
    by (simp add: quantum_def j_def)
  from assms False have r: "r = of_int M * 2 powr of_int j" and fin: "\<bar>r\<bar> < 2 ^ 1024"
    by (auto simp: binary64_def Let_def M_def q split: if_splits)
  have j: "- 1074 \<le> j"
    by (simp add: j_def exponent_def)
  have "\<bar>x\<bar> < 2 powr of_int (exponent x + 1)"
    by (rule abs_less_exponent[OF False])
  also have "\<dots> = 2 powr of_int (j + int 53)"
  proof -
    have "exponent x + 1 = j + int 53" by (simp add: j_def)
    then show ?thesis by (simp only:)
  qed
  also have "\<dots> = quantum x * 2 ^ 53"
    unfolding q by (rule two_powr_add)
  finally have "\<bar>x / quantum x\<bar> < 2 ^ 53"
    using quantum_pos[of x] by (simp add: field_simps)
  then have "\<bar>x / quantum x\<bar> < of_int (2 ^ 53)" by simp
  then have M: "\<bar>M\<bar> \<le> 2 ^ 53"
    unfolding M_def by (rule round_half_even_bound)
  show ?thesis
  proof (cases "\<bar>M\<bar> < 2 ^ 53")
    case True
    show ?thesis by (rule binary64_exact_gen[OF r True j fin])
  next
    case False
    with M have eq: "\<bar>M\<bar> = 2 ^ 53" by simp
    have "(2::int) dvd \<bar>M\<bar>" by (simp add: eq)
    then have "2 dvd M" by (simp only: dvd_abs_iff)
    then have twice: "M = 2 * (M div 2)" by simp
    then have "\<bar>M\<bar> = 2 * \<bar>M div 2\<bar>" by (simp add: abs_mult)
    with eq have half: "\<bar>M div 2\<bar> < 2 ^ 53" by simp
    from twice r have "r = of_int (2 * (M div 2)) * 2 powr of_int j"
      by simp
    also have "\<dots> = of_int (M div 2) * 2 powr of_int (j + 1)"
      by (simp add: powr_add)
    finally have r': "r = of_int (M div 2) * 2 powr of_int (j + 1)" .
    from j have "- 1074 \<le> j + 1" by simp
    from binary64_exact_gen[OF r' half this fin] show ?thesis .
  qed
qed

text \<open>The rounded value of a number whose binary exponent is known.\<close>

lemma exponent_eq:
  assumes "2 powr of_int e \<le> \<bar>x\<bar>" and "\<bar>x\<bar> < 2 powr of_int (e + 1)" and "- 1022 \<le> e"
  shows "exponent x = e"
proof -
  have "0 < \<bar>x\<bar>"
    using assms(1) powr_gt_zero[of 2 "of_int e"] by linarith
  then have "\<lfloor>log 2 \<bar>x\<bar>\<rfloor> = e"
    using floor_log_eq_powr_iff[of "\<bar>x\<bar>" 2 e] assms(1,2) by simp
  with assms(3) show ?thesis by (simp add: exponent_def)
qed

lemma binary64_eval:
  assumes lo: "2 powr of_int e \<le> \<bar>x\<bar>" and hi: "\<bar>x\<bar> < 2 powr of_int (e + 1)"
    and e: "- 1022 \<le> e" "e < 1023"
  shows "binary64 x = Fin (of_int (round_half_even (x / 2 powr of_int (e - 52))) * 2 powr of_int (e - 52))"
proof -
  have x: "x \<noteq> 0"
    using lo powr_gt_zero[of 2 "of_int e"] by auto
  have q: "quantum x = 2 powr of_int (e - 52)"
    by (simp add: quantum_def exponent_eq[OF lo hi e(1)])
  define r where "r = of_int (round_half_even (x / quantum x)) * quantum x"
  have "r - x = (of_int (round_half_even (x / quantum x)) - x / quantum x) * quantum x"
    using quantum_pos[of x] by (simp add: r_def field_simps)
  then have "\<bar>r - x\<bar> = \<bar>of_int (round_half_even (x / quantum x)) - x / quantum x\<bar> * quantum x"
    using quantum_pos[of x] by (simp add: abs_mult)
  also have "\<dots> \<le> 1 / 2 * quantum x"
    using quantum_pos[of x] by (intro mult_right_mono round_half_even_error) simp
  also have "\<dots> \<le> 2 powr of_int (e + 1)"
  proof -
    have "quantum x \<le> 2 powr of_int (e + 1)"
      unfolding q by simp
    with quantum_pos[of x] show ?thesis by simp
  qed
  finally have "\<bar>r\<bar> < 2 * 2 powr of_int (e + 1)"
    using hi by linarith
  also have "\<dots> = 2 powr of_int (e + 2)"
    by (simp add: powr_add)
  also have "\<dots> \<le> 2 powr of_int (int 1024)"
    by (rule powr_mono) (use e(2) in simp_all)
  also have "\<dots> = 2 ^ 1024"
    by (rule two_powr_nat)
  finally have "\<bar>r\<bar> < 2 ^ 1024" .
  with x show ?thesis
    by (simp add: binary64_def Let_def r_def[symmetric]) (simp add: r_def q)
qed

lemma binary64_tenth: "binary64 (1 / 10) = Fin (3602879701896397 / 36028797018963968)"
proof -
  have "binary64 (1 / 10) = Fin (of_int (round_half_even ((1 / 10) / 2 powr of_int (- 4 - 52))) * 2 powr of_int (- 4 - 52))"
    by (rule binary64_eval) (simp_all add: powr_minus_divide)
  also have "\<dots> = Fin (3602879701896397 / 36028797018963968)"
    by (simp add: powr_minus_divide round_half_even_def)
  finally show ?thesis .
qed


subsection \<open>Operations\<close>

lemma binary64_zero [simp]: "binary64 0 = Fin 0"
  by (simp add: binary64_def)

lemma binary64_not_NaN [simp]: "binary64 x \<noteq> NaN"
  by (simp add: binary64_def Let_def)

lemma rounded_binary64 [simp]: "rounded (binary64 x)"
  by (cases "binary64 x") (simp_all add: binary64_idem)

lemma uminus_uminus [simp]: "- (- x) = (x::float64)"
  by (cases x) simp_all

lemma uminus_plus: "- (x + y) = (- x) + (- y::float64)"
  by (cases x; cases y) (simp_all flip: binary64_minus)

lemma uminus_times: "(- x) * y = - (x * (y::float64))"
  by (cases x; cases y) (simp_all flip: binary64_minus)

lemma true_divide_uminus: "true_divide (- x) y = - true_divide x y"
  by (cases x; cases y) (simp_all flip: binary64_minus)

lemma rounded_uminus [simp]: "rounded (- x) = rounded x"
proof (cases x)
  case (Fin a)
  have "binary64 (- a) = Fin (- a) \<longleftrightarrow> binary64 a = Fin a"
    by (cases "binary64 a") (simp_all add: binary64_minus)
  with Fin show ?thesis by simp
qed simp_all

lemma rounded_plus [simp]: "rounded (x + y)"
  by (cases x; cases y) simp_all

lemma rounded_minus [simp]: "rounded (x - y)"
  by (simp add: minus_float64_def)

lemma rounded_times [simp]: "rounded (x * y)"
  by (cases x; cases y) simp_all

lemma rounded_true_divide [simp]: "rounded (true_divide x y)"
  by (cases x; cases y) simp_all


subsection \<open>Sums\<close>

lemma foldl_plus_negative: "foldl (+) (- z) (map uminus a) = - foldl (+) z (a::ndarray)"
  by (induction a arbitrary: z) (simp_all flip: uminus_plus)

lemma block_index:
  assumes "i < n div 8" and "j < 8"
  shows "8 * i + j < (n::nat)"
proof -
  have "8 * (n div 8) \<le> n" by simp
  moreover have "8 * Suc i \<le> 8 * (n div 8)" using assms(1) by simp
  ultimately show ?thesis using assms(2) by simp
qed

lemma sum_block_negative:
  assumes "8 \<le> length a"
  shows "sum_block (map uminus a) = - sum_block a"
proof -
  define R where "R = (\<lambda>(a::ndarray) j. foldl (+) (a ! j) (map (\<lambda>i. a ! (8 * i + j)) [1..<length a div 8]))"
  have r: "R (map uminus a) j = - R a j" if "j < 8" for j
  proof -
    have "j < length a" using assms that by simp
    moreover have "map (\<lambda>i. map uminus a ! (8 * i + j)) [1..<length a div 8] =
        map uminus (map (\<lambda>i. a ! (8 * i + j)) [1..<length a div 8])"
      using that by (simp add: block_index)
    ultimately show ?thesis
      unfolding R_def length_map by (simp only: nth_map foldl_plus_negative)
  qed
  have r8: "R (map uminus a) 0 = - R a 0" "R (map uminus a) 1 = - R a 1"
    "R (map uminus a) 2 = - R a 2" "R (map uminus a) 3 = - R a 3"
    "R (map uminus a) 4 = - R a 4" "R (map uminus a) 5 = - R a 5"
    "R (map uminus a) 6 = - R a 6" "R (map uminus a) 7 = - R a 7"
    by (rule r; simp)+
  have unf: "sum_block b = foldl (+) (((R b 0 + R b 1) + (R b 2 + R b 3)) + ((R b 4 + R b 5) + (R b 6 + R b 7)))
      (drop (length b - length b mod 8) b)" for b
    by (simp only: sum_block_def Let_def R_def)
  show ?thesis
    unfolding unf length_map r8 drop_map
    by (simp only: foldl_plus_negative flip: uminus_plus)
qed

lemma pairwise_sum_negative: "pairwise_sum (map uminus a) = - pairwise_sum a"
proof (induction a rule: pairwise_sum.induct)
  case (1 a)
  show ?case
  proof (cases "length a < 8")
    case True
    have "foldl (+) (Fin 0) (map uminus a) = foldl (+) (- Fin 0) (map uminus a)" by simp
    also have "\<dots> = - foldl (+) (Fin 0) a" by (rule foldl_plus_negative)
    finally show ?thesis
      using True by (simp add: pairwise_sum.simps[of a] pairwise_sum.simps[of "map uminus a"])
  next
    case False
    show ?thesis
    proof (cases "length a \<le> 128")
      case True
      with False show ?thesis
        by (simp add: pairwise_sum.simps[of a] pairwise_sum.simps[of "map uminus a"]
            sum_block_negative)
    next
      case big: False
      from 1[OF False big] show ?thesis
        using False big
        by (simp add: pairwise_sum.simps[of a] pairwise_sum.simps[of "map uminus a"]
            take_map drop_map uminus_plus)
    qed
  qed
qed

lemma add_reduce_negative: "add_reduce (map uminus a) = - add_reduce a"
  by (simp add: add_reduce_def pairwise_sum_negative)

lemma add_reduce_short: "length a < 8 \<Longrightarrow> add_reduce a = foldl (+) (Fin 0) a"
  by (simp add: add_reduce_def pairwise_sum.simps[of a])

lemma mean_negative: "mean (negative a) = - mean a"
  by (simp add: mean_def negative_def add_reduce_negative true_divide_uminus)

section \<open>Properties of the trainer\<close>

subsection \<open>Negation and the array operators\<close>

lemma map2_times_negative:
  "map2 (\<lambda>x y. x * y) (map uminus a) b = map uminus (map2 (\<lambda>x y. x * (y::float64)) a b)"
  by (induction a b rule: list_induct2') (simp_all add: uminus_times)

lemma multiply_negative:
  "multiply (negative a) b = (case multiply a b of Inl e \<Rightarrow> Inl e | Inr p \<Rightarrow> Inr (negative p))"
proof -
  have same: "map2 (\<lambda>x y. x * y) (map uminus a) b = map uminus (map2 (\<lambda>x y. x * y) a b)"
    by (rule map2_times_negative)
  have right: "map (\<lambda>x. x * c) (map uminus a) = map uminus (map (\<lambda>x. x * c) a)" for c
    by (simp add: uminus_times)
  have left: "map ((*) (- c)) b = map uminus (map ((*) c) b)" for c
    by (simp add: uminus_times)
  have head: "hd (map uminus a) = - hd a" if "length a = Suc 0"
    using that by (cases a) simp_all
  show ?thesis
    unfolding multiply_def broadcast_def negative_def length_map
    by (auto simp: same right left head simp del: map_map)
qed

subsection \<open>One pass, with the heap made explicit\<close>

lemma loop_body_unfold:
  assumes "xs < length (heap w)" and "ys < length (heap w)"
  shows "loop_body lr xs ys (b0, b1) w =
    (let t1 = scalar_multiply b1 (heap w ! xs); yhats = scalar_add b0 t1
     in (case subtract (heap w ! ys) yhats of
           Inl e \<Rightarrow> (Inl e, w\<lparr>heap := heap w @ [t1, yhats]\<rparr>)
         | Inr es \<Rightarrow>
             (case multiply (negative es) (heap w ! xs) of
                Inl e \<Rightarrow> (Inl e, w\<lparr>heap := heap w @ [t1, yhats, es, negative es, negative es]\<rparr>)
              | Inr p \<Rightarrow>
                  (Inr (b0 - lr * mean (negative es), b1 - lr * mean p),
                   w\<lparr>heap := heap w @ [t1, yhats, es, negative es, negative es, p]\<rparr>))))"
  using assms
  by (simp add: loop_body.simps new_array_def array_at_def Let_def nth_append split: sum.splits)

lemma broadcast_Inl: "broadcast f a b = Inl e \<longleftrightarrow> \<not> compatible a b"
  by (cases e) (simp add: broadcast_def compatible_def)

lemma compatible_residuals:
  assumes "subtract Y (scalar_add b0 (scalar_multiply b1 X)) = Inr es"
  shows "compatible es X"
  using assms
  by (auto simp: subtract_def broadcast_def compatible_def scalar_add_def scalar_multiply_def
      split: if_splits)

lemma multiply_residuals:
  assumes "subtract Y (scalar_add b0 (scalar_multiply b1 X)) = Inr es"
  shows "\<exists>p. multiply es X = Inr p"
proof (cases "multiply es X")
  case (Inl e)
  then have "\<not> compatible es X"
    by (simp add: multiply_def broadcast_Inl)
  with compatible_residuals[OF assms] show ?thesis by simp
next
  case (Inr p)
  then show ?thesis by blast
qed

lemma loop_body_gradient:
  assumes "xs < length (heap w)" and "ys < length (heap w)"
  shows "fst (loop_body lr xs ys (b0, b1) w) =
    (case gradient (heap w ! xs) (heap w ! ys) (b0, b1) of
       Inl e \<Rightarrow> Inl e
     | Inr (g0, g1) \<Rightarrow> Inr (b0 - lr * g0, b1 - lr * g1))"
  by (simp add: loop_body_unfold[OF assms] gradient.simps Let_def split: sum.splits)

lemma gradient_residuals:
  assumes "subtract Y (scalar_add b0 (scalar_multiply b1 X)) = Inr es"
  shows "\<exists>es_xs. multiply es X = Inr es_xs \<and> gradient X Y (b0, b1) = Inr (- mean es, - mean es_xs)"
proof -
  from multiply_residuals[OF assms] obtain p where p: "multiply es X = Inr p" ..
  then show ?thesis
    by (simp add: gradient.simps assms multiply_negative mean_negative)
qed

lemma gradient_Inl:
  "gradient X Y (b0, b1) = Inl e \<longleftrightarrow> \<not> compatible Y X"
proof (cases "subtract Y (scalar_add b0 (scalar_multiply b1 X))")
  case (Inl e')
  then have "\<not> compatible Y (scalar_add b0 (scalar_multiply b1 X))"
    by (simp add: subtract_def broadcast_Inl)
  then have "\<not> compatible Y X"
    by (simp add: compatible_def scalar_add_def scalar_multiply_def)
  with Inl show ?thesis by (cases e; cases e') (simp add: gradient.simps)
next
  case (Inr es)
  then have "compatible Y (scalar_add b0 (scalar_multiply b1 X))"
    using broadcast_Inl[of "\<lambda>x y. x - y" Y "scalar_add b0 (scalar_multiply b1 X)" ValueError]
    by (simp add: subtract_def)
  then have "compatible Y X"
    by (simp add: compatible_def scalar_add_def scalar_multiply_def)
  moreover from gradient_residuals[OF Inr] have "gradient X Y (b0, b1) \<noteq> Inl e" by auto
  ultimately show ?thesis by simp
qed

subsection \<open>The loop\<close>

lemma residuals_Inl:
  "subtract Y (scalar_add b0 (scalar_multiply b1 X)) = Inl e \<longleftrightarrow> \<not> compatible Y X"
  by (simp add: subtract_def broadcast_Inl) (simp add: compatible_def scalar_add_def scalar_multiply_def)

lemma loop_body_world:
  assumes "xs < length (heap w)" and "ys < length (heap w)"
  shows "\<exists>new. snd (loop_body lr xs ys b w) = w\<lparr>heap := heap w @ new\<rparr> \<and>
           length new = (if compatible (heap w ! ys) (heap w ! xs) then 6 else 2)"
proof (cases b)
  case (Pair b0 b1)
  show ?thesis
  proof (cases "subtract (heap w ! ys) (scalar_add b0 (scalar_multiply b1 (heap w ! xs)))")
    case (Inl e)
    then have "\<not> compatible (heap w ! ys) (heap w ! xs)"
      by (simp add: residuals_Inl)
    moreover from Inl have "snd (loop_body lr xs ys b w) =
        w\<lparr>heap := heap w @ [scalar_multiply b1 (heap w ! xs),
          scalar_add b0 (scalar_multiply b1 (heap w ! xs))]\<rparr>"
      by (simp add: Pair loop_body_unfold[OF assms] Let_def)
    ultimately show ?thesis
      by (intro exI[of _ "[scalar_multiply b1 (heap w ! xs),
          scalar_add b0 (scalar_multiply b1 (heap w ! xs))]"]) simp
  next
    case (Inr es)
    then have yes: "compatible (heap w ! ys) (heap w ! xs)"
      using residuals_Inl[of "heap w ! ys" b0 b1 "heap w ! xs" ValueError] by simp
    from multiply_residuals[OF Inr] obtain p where "multiply es (heap w ! xs) = Inr p" ..
    then have "multiply (negative es) (heap w ! xs) = Inr (negative p)"
      by (simp add: multiply_negative)
    with Inr have "snd (loop_body lr xs ys b w) =
        w\<lparr>heap := heap w @ [scalar_multiply b1 (heap w ! xs),
          scalar_add b0 (scalar_multiply b1 (heap w ! xs)), es, negative es, negative es,
          negative p]\<rparr>"
      by (simp add: Pair loop_body_unfold[OF assms] Let_def)
    with yes show ?thesis
      by (intro exI[of _ "[scalar_multiply b1 (heap w ! xs),
          scalar_add b0 (scalar_multiply b1 (heap w ! xs)), es, negative es, negative es,
          negative p]"]) simp
  qed
qed

lemma for_loop_value:
  assumes "xs < length (heap w)" and "ys < length (heap w)"
  shows "fst (for_loop is lr xs ys b w) = descend (length is) lr (heap w ! xs) (heap w ! ys) b"
  using assms
proof (induction "is" arbitrary: b w)
  case Nil
  show ?case by simp
next
  case (Cons i rest)
  obtain b0 b1 where b: "b = (b0, b1)" by (cases b)
  from loop_body_world[OF Cons.prems, of lr b] obtain new where
    w': "snd (loop_body lr xs ys b w) = w\<lparr>heap := heap w @ new\<rparr>" by blast
  have val: "fst (loop_body lr xs ys b w) =
      (case gradient (heap w ! xs) (heap w ! ys) b of
         Inl e \<Rightarrow> Inl e | Inr (g0, g1) \<Rightarrow> Inr (b0 - lr * g0, b1 - lr * g1))"
    unfolding b by (rule loop_body_gradient[OF Cons.prems])
  show ?case
  proof (cases "gradient (heap w ! xs) (heap w ! ys) b")
    case (Inl e)
    with val show ?thesis
      by (cases "loop_body lr xs ys b w") simp
  next
    case (Inr g)
    obtain g0 g1 where g: "g = (g0, g1)" by (cases g)
    let ?w' = "w\<lparr>heap := heap w @ new\<rparr>"
    have lb: "loop_body lr xs ys b w = (Inr (b0 - lr * g0, b1 - lr * g1), ?w')"
      using val w' Inr g by (cases "loop_body lr xs ys b w") simp
    have valid: "xs < length (heap ?w')" "ys < length (heap ?w')"
      using Cons.prems by simp_all
    have "fst (for_loop (i # rest) lr xs ys b w) =
        fst (for_loop rest lr xs ys (b0 - lr * g0, b1 - lr * g1) ?w')"
      by (simp add: lb)
    also have "\<dots> = descend (length rest) lr (heap ?w' ! xs) (heap ?w' ! ys)
        (b0 - lr * g0, b1 - lr * g1)"
      by (rule Cons.IH[OF valid])
    also have "\<dots> = descend (length rest) lr (heap w ! xs) (heap w ! ys)
        (b0 - lr * g0, b1 - lr * g1)"
      using Cons.prems by (simp add: nth_append)
    also have "\<dots> = descend (length (i # rest)) lr (heap w ! xs) (heap w ! ys) b"
      using Inr by (simp add: g b)
    finally show ?thesis .
  qed
qed

lemma for_loop_world:
  assumes "xs < length (heap w)" and "ys < length (heap w)"
  shows "\<exists>new. snd (for_loop is lr xs ys b w) = w\<lparr>heap := heap w @ new\<rparr> \<and>
           length new = (if compatible (heap w ! ys) (heap w ! xs) then 6 * length is
                         else if is = [] then 0 else 2)"
  using assms
proof (induction "is" arbitrary: b w)
  case Nil
  show ?case by simp
next
  case (Cons i rest)
  obtain b0 b1 where b: "b = (b0, b1)" by (cases b)
  from loop_body_world[OF Cons.prems, of lr b] obtain new where
    w': "snd (loop_body lr xs ys b w) = w\<lparr>heap := heap w @ new\<rparr>"
    and len: "length new = (if compatible (heap w ! ys) (heap w ! xs) then 6 else 2)" by blast
  let ?w' = "w\<lparr>heap := heap w @ new\<rparr>"
  have val: "fst (loop_body lr xs ys b w) =
      (case gradient (heap w ! xs) (heap w ! ys) b of
         Inl e \<Rightarrow> Inl e | Inr (g0, g1) \<Rightarrow> Inr (b0 - lr * g0, b1 - lr * g1))"
    unfolding b by (rule loop_body_gradient[OF Cons.prems])
  show ?case
  proof (cases "fst (loop_body lr xs ys b w)")
    case (Inl e)
    then have "gradient (heap w ! xs) (heap w ! ys) (b0, b1) = Inl e"
      using val by (simp add: b split: sum.splits prod.splits)
    then have "\<not> compatible (heap w ! ys) (heap w ! xs)"
      by (simp add: gradient_Inl)
    moreover from Inl w' have "for_loop (i # rest) lr xs ys b w = (Inl e, ?w')"
      by (cases "loop_body lr xs ys b w") simp
    ultimately show ?thesis using len by auto
  next
    case (Inr b')
    then have "gradient (heap w ! xs) (heap w ! ys) (b0, b1) \<noteq> Inl ValueError"
      using val by (auto simp: b split: sum.splits prod.splits)
    then have yes: "compatible (heap w ! ys) (heap w ! xs)"
      by (simp add: gradient_Inl)
    from Inr w' have step: "for_loop (i # rest) lr xs ys b w = for_loop rest lr xs ys b' ?w'"
      by (cases "loop_body lr xs ys b w") simp
    have valid: "xs < length (heap ?w')" "ys < length (heap ?w')"
      using Cons.prems by simp_all
    from Cons.IH[OF valid, of b'] obtain new' where
      "snd (for_loop rest lr xs ys b' ?w') = ?w'\<lparr>heap := heap ?w' @ new'\<rparr>"
      and "length new' = (if compatible (heap ?w' ! ys) (heap ?w' ! xs) then 6 * length rest
                          else if rest = [] then 0 else 2)" by blast
    then have "snd (for_loop (i # rest) lr xs ys b w) = w\<lparr>heap := heap w @ (new @ new')\<rparr>"
      and "length (new @ new') = 6 * length (i # rest)"
      unfolding step using yes len Cons.prems by (simp_all add: nth_append)
    with yes show ?thesis by (intro exI[of _ "new @ new'"]) simp
  qed
qed

lemma descend_compatible:
  assumes "compatible Y X"
  shows "\<exists>c0 c1. descend n lr X Y b = Inr (c0, c1)"
proof (induction n arbitrary: b)
  case 0
  show ?case by (cases b) simp
next
  case (Suc n)
  obtain b0 b1 where b: "b = (b0, b1)" by (cases b)
  have "gradient X Y (b0, b1) \<noteq> Inl ValueError"
    using assms by (simp add: gradient_Inl)
  then obtain g0 g1 where "gradient X Y b = Inr (g0, g1)"
    unfolding b by (cases "gradient X Y (b0, b1)") (auto intro: error.exhaust)
  with Suc.IH show ?case by simp
qed

lemma descend_incompatible:
  assumes "\<not> compatible Y X"
  shows "descend (Suc n) lr X Y b = Inl ValueError"
proof -
  obtain b0 b1 where b: "b = (b0, b1)" by (cases b)
  have "gradient X Y (b0, b1) = Inl ValueError"
    using assms by (simp add: gradient_Inl)
  then show ?thesis by (simp add: b)
qed

subsection \<open>The whole call\<close>

lemma learn_unfold:
  assumes "xs < length (heap w)" and "ys < length (heap w)"
    and "randint (rng w) = (i, g)"
  shows "\<exists>new. length new = (if compatible (heap w ! ys) (heap w ! xs) then 6 * 5000 else 2) \<and>
     learn_w_gradient_descent randint xs ys w =
       (case descend 5000 (binary64 (1 / 10)) (heap w ! xs) (heap w ! ys)
               (Fin (of_int (fst i)), Fin (of_int (snd i))) of
          Inl e \<Rightarrow>
            (Inl e, w\<lparr>heap := heap w @ new, stdout := stdout w @ initial_lines i, rng := g\<rparr>)
        | Inr c \<Rightarrow>
            (Inr PNone,
             w\<lparr>heap := heap w @ new, stdout := stdout w @ initial_lines i @ final_lines c,
               rng := g\<rparr>))"
proof -
  obtain i0 i1 where i: "i = (i0, i1)" by (cases i)
  define w3 where "w3 = print ''Initial gradient descent beta_1: {}'' (PInt i1)
    (print ''Initial gradient descent beta_0: {}'' (PInt i0) (w\<lparr>rng := g\<rparr>))"
  have w3: "w3 = w\<lparr>stdout := stdout w @ initial_lines i, rng := g\<rparr>"
    by (simp add: w3_def print_def initial_lines_def i)
  have valid: "xs < length (heap w3)" "ys < length (heap w3)"
    using assms by (simp_all add: w3)
  define r where "r = for_loop [0..<5000] (binary64 (1 / 10)) xs ys (Fin (of_int i0), Fin (of_int i1)) w3"
  from for_loop_world[OF valid, of "[0..<5000]" "binary64 (1 / 10)" "(Fin (of_int i0), Fin (of_int i1))"]
  obtain new where snd_r: "snd r = w3\<lparr>heap := heap w3 @ new\<rparr>"
    and len: "length new = (if compatible (heap w ! ys) (heap w ! xs) then 6 * 5000 else 2)"
    by (auto simp: r_def w3)
  have fst_r: "fst r = descend 5000 (binary64 (1 / 10)) (heap w ! xs) (heap w ! ys)
      (Fin (of_int i0), Fin (of_int i1))"
    using for_loop_value[OF valid, of "[0..<5000]"] by (simp add: r_def w3)
  have learn: "learn_w_gradient_descent randint xs ys w =
      (case r of
         (Inl e, w4) \<Rightarrow> (Inl e, w4)
       | (Inr c, w4) \<Rightarrow> (Inr PNone, w4\<lparr>stdout := stdout w4 @ final_lines c\<rparr>))"
    by (simp add: learn_w_gradient_descent_def assms(3) i Let_def r_def w3_def print_def
        final_lines_def split: prod.splits sum.splits)
  have "learn_w_gradient_descent randint xs ys w =
       (case descend 5000 (binary64 (1 / 10)) (heap w ! xs) (heap w ! ys)
               (Fin (of_int (fst i)), Fin (of_int (snd i))) of
          Inl e \<Rightarrow>
            (Inl e, w\<lparr>heap := heap w @ new, stdout := stdout w @ initial_lines i, rng := g\<rparr>)
        | Inr c \<Rightarrow>
            (Inr PNone,
             w\<lparr>heap := heap w @ new, stdout := stdout w @ initial_lines i @ final_lines c,
               rng := g\<rparr>))"
    using fst_r snd_r
    by (cases r) (auto simp: learn i w3 split: sum.splits)
  with len show ?thesis by blast
qed

lemma learn_result:
  assumes "xs < length (heap w)" and "ys < length (heap w)"
  shows "fst (learn_w_gradient_descent randint xs ys w) =
     (if compatible (heap w ! ys) (heap w ! xs) then Inr PNone else Inl ValueError)"
proof -
  obtain i g where r: "randint (rng w) = (i, g)" by (cases "randint (rng w)")
  from learn_unfold[where randint = randint, OF assms r] obtain new where
    learn: "learn_w_gradient_descent randint xs ys w =
       (case descend 5000 (binary64 (1 / 10)) (heap w ! xs) (heap w ! ys)
               (Fin (of_int (fst i)), Fin (of_int (snd i))) of
          Inl e \<Rightarrow>
            (Inl e, w\<lparr>heap := heap w @ new, stdout := stdout w @ initial_lines i, rng := g\<rparr>)
        | Inr c \<Rightarrow>
            (Inr PNone,
             w\<lparr>heap := heap w @ new, stdout := stdout w @ initial_lines i @ final_lines c,
               rng := g\<rparr>))" by blast
  show ?thesis
  proof (cases "compatible (heap w ! ys) (heap w ! xs)")
    case True
    from descend_compatible[OF True, of 5000 "binary64 (1 / 10)" "(Fin (of_int (fst i)), Fin (of_int (snd i)))"]
    show ?thesis using True by (auto simp: learn)
  next
    case False
    have "descend (Suc 4999) (binary64 (1 / 10)) (heap w ! xs) (heap w ! ys)
        (Fin (of_int (fst i)), Fin (of_int (snd i))) = Inl ValueError"
      by (rule descend_incompatible[OF False])
    then show ?thesis using False by (simp add: learn)
  qed
qed

lemma learn_world:
  assumes "xs < length (heap w)" and "ys < length (heap w)"
  shows "\<exists>new lines.
     snd (learn_w_gradient_descent randint xs ys w) =
       w\<lparr>heap := heap w @ new, stdout := stdout w @ lines, rng := snd (randint (rng w))\<rparr> \<and>
     length new = (if compatible (heap w ! ys) (heap w ! xs) then 6 * 5000 else 2) \<and>
     length lines = (if compatible (heap w ! ys) (heap w ! xs) then 4 else 2)"
proof -
  obtain i g where r: "randint (rng w) = (i, g)" by (cases "randint (rng w)")
  from learn_unfold[where randint = randint, OF assms r] obtain new where
    len: "length new = (if compatible (heap w ! ys) (heap w ! xs) then 6 * 5000 else 2)" and
    learn: "learn_w_gradient_descent randint xs ys w =
       (case descend 5000 (binary64 (1 / 10)) (heap w ! xs) (heap w ! ys)
               (Fin (of_int (fst i)), Fin (of_int (snd i))) of
          Inl e \<Rightarrow>
            (Inl e, w\<lparr>heap := heap w @ new, stdout := stdout w @ initial_lines i, rng := g\<rparr>)
        | Inr c \<Rightarrow>
            (Inr PNone,
             w\<lparr>heap := heap w @ new, stdout := stdout w @ initial_lines i @ final_lines c,
               rng := g\<rparr>))" by blast
  show ?thesis
  proof (cases "compatible (heap w ! ys) (heap w ! xs)")
    case True
    from descend_compatible[OF True, of 5000 "binary64 (1 / 10)" "(Fin (of_int (fst i)), Fin (of_int (snd i)))"]
    obtain c where "descend 5000 (binary64 (1 / 10)) (heap w ! xs) (heap w ! ys)
        (Fin (of_int (fst i)), Fin (of_int (snd i))) = Inr c" by blast
    then have "snd (learn_w_gradient_descent randint xs ys w) =
        w\<lparr>heap := heap w @ new, stdout := stdout w @ (initial_lines i @ final_lines c),
          rng := snd (randint (rng w))\<rparr>"
      by (simp add: learn r)
    moreover have "length (initial_lines i @ final_lines c) = 4"
      by (simp add: initial_lines_def final_lines_def)
    ultimately show ?thesis using len True
      by (intro exI[of _ new] exI[of _ "initial_lines i @ final_lines c"]) simp
  next
    case False
    have "descend (Suc 4999) (binary64 (1 / 10)) (heap w ! xs) (heap w ! ys)
        (Fin (of_int (fst i)), Fin (of_int (snd i))) = Inl ValueError"
      by (rule descend_incompatible[OF False])
    then have "snd (learn_w_gradient_descent randint xs ys w) =
        w\<lparr>heap := heap w @ new, stdout := stdout w @ initial_lines i,
          rng := snd (randint (rng w))\<rparr>"
      by (simp add: learn r)
    moreover have "length (initial_lines i) = 2"
      by (simp add: initial_lines_def)
    ultimately show ?thesis using len False
      by (intro exI[of _ new] exI[of _ "initial_lines i"]) simp
  qed
qed

lemma learn_stdout:
  assumes "xs < length (heap w)" and "ys < length (heap w)"
  shows "stdout (snd (learn_w_gradient_descent randint xs ys w)) =
     stdout w @ initial_lines (fst (randint (rng w))) @
       (case descend 5000 (binary64 (1 / 10)) (heap w ! xs) (heap w ! ys)
               (Fin (of_int (fst (fst (randint (rng w))))),
                Fin (of_int (snd (fst (randint (rng w)))))) of
          Inl e \<Rightarrow> [] | Inr c \<Rightarrow> final_lines c)"
proof -
  obtain i g where r: "randint (rng w) = (i, g)" by (cases "randint (rng w)")
  from learn_unfold[where randint = randint, OF assms r] show ?thesis
    by (auto simp: r split: sum.splits)
qed


subsection \<open>No observations\<close>

lemma mean_empty: "mean [] = NaN"
  by (simp add: mean_def add_reduce_def pairwise_sum.simps)

lemma gradient_empty: "gradient [] [] b = Inr (NaN, NaN)"
  by (cases b)
    (simp add: gradient.simps subtract_def multiply_def broadcast_def scalar_add_def
      scalar_multiply_def negative_def mean_empty)

lemma minus_times_NaN: "b - lr * NaN = (NaN::float64)"
  by (cases lr; cases b) (simp_all add: minus_float64_def)

lemma descend_NaN: "descend n lr [] [] (NaN, NaN) = Inr (NaN, NaN)"
  by (induction n) (simp_all add: gradient_empty minus_times_NaN)

lemma descend_empty: "descend (Suc n) lr [] [] (b0, b1) = Inr (NaN, NaN)"
  by (simp add: gradient_empty descend_NaN minus_times_NaN)

subsection \<open>Values that need no rounding\<close>

lemma binary64_small:
  assumes "x * 1024 \<in> \<int>" and "\<bar>x\<bar> < 2 ^ 40"
  shows "binary64 x = Fin x"
proof (rule binary64_exact[where k = 10])
  show "x * 2 ^ 10 \<in> \<int>" using assms(1) by simp
  have "\<bar>x * 2 ^ 10\<bar> = \<bar>x\<bar> * 2 ^ 10" by (simp add: abs_mult)
  also have "\<dots> < 2 ^ 40 * 2 ^ 10"
    using assms(2) by (intro mult_strict_right_mono) simp_all
  also have "\<dots> < (2::real) ^ 53" by simp
  finally show "\<bar>x * 2 ^ 10\<bar> < 2 ^ 53" .
  show "10 \<le> (1074::nat)" by simp
qed

text \<open>
  Seventeen numbers are added in eight running sums over the leading sixteen (\<open>1 + 9\<close>,
  \<open>2 + 10\<close>, ...), which are added in pairs, and the last one is added at the end.
\<close>

lemma add_reduce_seventeen:
  "add_reduce [Fin 1, Fin 2, Fin 3, Fin 4, Fin 5, Fin 6, Fin 7, Fin 8, Fin 9, Fin 10, Fin 11,
     Fin 12, Fin 13, Fin 14, Fin 15, Fin 16, Fin 17] = Fin 153"
proof -
  have u: "[Suc 0..<2] = [1]" by (simp add: numeral_2_eq_2)
  show ?thesis
    unfolding add_reduce_def
    by (subst pairwise_sum.simps) (simp add: sum_block_def Let_def binary64_small u)
qed

subsection \<open>The gradient, entry by entry\<close>

lemma map2_map_right:
  "length Y = length X \<Longrightarrow> map2 f Y (map g X) = map2 (\<lambda>x y. f y (g x)) X Y"
  by (induction Y X rule: list_induct2) simp_all

lemma map2_map2_left:
  "length Y = length X \<Longrightarrow> map2 f (map2 g X Y) X = map2 (\<lambda>x y. f (g x y) x) X Y"
  by (induction Y X rule: list_induct2) simp_all

lemma gradient_elementwise:
  assumes "length Y = length X"
  shows "gradient X Y (b0, b1) =
     Inr (- mean (map2 (\<lambda>x y. y - (b0 + b1 * x)) X Y),
          - mean (map2 (\<lambda>x y. (y - (b0 + b1 * x)) * x) X Y))"
proof -
  have yhats: "scalar_add b0 (scalar_multiply b1 X) = map (\<lambda>x. b0 + b1 * x) X"
    by (simp add: scalar_add_def scalar_multiply_def)
  have es: "subtract Y (scalar_add b0 (scalar_multiply b1 X)) =
      Inr (map2 (\<lambda>x y. y - (b0 + b1 * x)) X Y)"
    unfolding yhats using assms
    by (simp add: subtract_def broadcast_def map2_map_right)
  from gradient_residuals[OF es] obtain p where
    p: "multiply (map2 (\<lambda>x y. y - (b0 + b1 * x)) X Y) X = Inr p"
    and g: "gradient X Y (b0, b1) = Inr (- mean (map2 (\<lambda>x y. y - (b0 + b1 * x)) X Y), - mean p)"
    by blast
  have "multiply (map2 (\<lambda>x y. y - (b0 + b1 * x)) X Y) X =
      Inr (map2 (\<lambda>x y. (y - (b0 + b1 * x)) * x) X Y)"
    using assms by (simp add: multiply_def broadcast_def map2_map2_left)
  with p g show ?thesis by simp
qed

subsection \<open>Observations on the line of the coefficients\<close>

lemma foldl_plus_zeros: "set a \<subseteq> {Fin 0} \<Longrightarrow> foldl (+) (Fin 0) a = Fin 0"
  by (induction a) auto

lemma sum_block_zeros:
  assumes "8 \<le> length a" and "set a \<subseteq> {Fin 0}"
  shows "sum_block a = Fin 0"
proof -
  have nth: "a ! k = Fin 0" if "k < length a" for k
    using assms(2) nth_mem[OF that] by auto
  define R where "R = (\<lambda>j. foldl (+) (a ! j) (map (\<lambda>i. a ! (8 * i + j)) [1..<length a div 8]))"
  have r: "R j = Fin 0" if "j < 8" for j
  proof -
    have "j < length a" using assms(1) that by simp
    then have "a ! j = Fin 0" by (rule nth)
    moreover have "set (map (\<lambda>i. a ! (8 * i + j)) [1..<length a div 8]) \<subseteq> {Fin 0}"
      using that by (auto simp: nth block_index)
    ultimately show ?thesis
      unfolding R_def by (simp only: foldl_plus_zeros)
  qed
  have r8: "R 0 = Fin 0" "R 1 = Fin 0" "R 2 = Fin 0" "R 3 = Fin 0"
    "R 4 = Fin 0" "R 5 = Fin 0" "R 6 = Fin 0" "R 7 = Fin 0"
    by (rule r; simp)+
  have unf: "sum_block a = foldl (+) (((R 0 + R 1) + (R 2 + R 3)) + ((R 4 + R 5) + (R 6 + R 7)))
      (drop (length a - length a mod 8) a)"
    by (simp only: sum_block_def Let_def R_def)
  have "set (drop (length a - length a mod 8) a) \<subseteq> {Fin 0}"
    using assms(2) set_drop_subset[of "length a - length a mod 8" a] by blast
  then show ?thesis
    unfolding unf r8 by (simp add: foldl_plus_zeros)
qed

lemma pairwise_sum_zeros: "set a \<subseteq> {Fin 0} \<Longrightarrow> pairwise_sum a = Fin 0"
proof (induction a rule: pairwise_sum.induct)
  case (1 a)
  show ?case
  proof (cases "length a < 8")
    case True
    then show ?thesis
      using "1.prems" by (simp add: pairwise_sum.simps[of a] foldl_plus_zeros)
  next
    case False
    show ?thesis
    proof (cases "length a \<le> 128")
      case True
      with False show ?thesis
        using "1.prems" by (simp add: pairwise_sum.simps[of a] sum_block_zeros)
    next
      case big: False
      let ?n2 = "length a div 2 - length a div 2 mod 8"
      have "set (take ?n2 a) \<subseteq> {Fin 0}" "set (drop ?n2 a) \<subseteq> {Fin 0}"
        using "1.prems" set_take_subset[of ?n2 a] set_drop_subset[of ?n2 a] by blast+
      with "1.IH"[OF False big] show ?thesis
        using False big by (simp add: pairwise_sum.simps[of a])
    qed
  qed
qed

lemma mean_zeros:
  assumes "a \<noteq> []" and "set a \<subseteq> {Fin 0}"
  shows "mean a = Fin 0"
  using assms by (simp add: mean_def add_reduce_def pairwise_sum_zeros)

lemma minus_self: "isfinite y \<Longrightarrow> y - y = Fin 0"
  by (cases y) (simp_all add: minus_float64_def)

lemma gradient_at_true_coefficients:
  assumes "X \<noteq> []" and "\<forall>x\<in>set X. isfinite (Fin b0 + Fin b1 * Fin x)"
  shows "gradient (map Fin X) (map (\<lambda>x. Fin b0 + Fin b1 * Fin x) X) (Fin b0, Fin b1) =
     Inr (Fin 0, Fin 0)"
proof -
  let ?Y = "map (\<lambda>x. Fin b0 + Fin b1 * Fin x) X"
  have len: "length ?Y = length (map Fin X)" by simp
  have res: "map2 (\<lambda>x y. y - (Fin b0 + Fin b1 * x)) (map Fin X) ?Y = map (\<lambda>x. Fin 0) X"
    using assms(2) by (simp add: zip_map_map zip_same_conv_map minus_self del: times_float64.simps plus_float64.simps)
  have prod: "map2 (\<lambda>x y. (y - (Fin b0 + Fin b1 * x)) * x) (map Fin X) ?Y = map (\<lambda>x. Fin 0) X"
    using assms(2) by (simp add: zip_map_map zip_same_conv_map minus_self del: plus_float64.simps)
  have zero: "mean (map (\<lambda>x. Fin 0) X) = Fin 0"
    using assms(1) by (intro mean_zeros) auto
  show ?thesis
    unfolding gradient_elementwise[OF len] res prod zero by simp
qed

lemma step_at_zero_gradient:
  assumes "rounded (Fin b)"
  shows "Fin b - Fin l * Fin 0 = Fin b"
  using assms by (simp add: minus_float64_def)

lemma descend_at_true_coefficients:
  assumes "X \<noteq> []" and "\<forall>x\<in>set X. isfinite (Fin b0 + Fin b1 * Fin x)"
    and "rounded (Fin b0)" and "rounded (Fin b1)"
  shows "descend n (Fin l) (map Fin X) (map (\<lambda>x. Fin b0 + Fin b1 * Fin x) X) (Fin b0, Fin b1) =
     Inr (Fin b0, Fin b1)"
  by (induction n)
    (simp_all add: gradient_at_true_coefficients[OF assms(1,2)] step_at_zero_gradient[OF assms(3)]
      step_at_zero_gradient[OF assms(4)] del: times_float64.simps plus_float64.simps)

subsection \<open>Inputs that are all equal\<close>




section \<open>Convergence\<close>

subsection \<open>Means of real data\<close>










subsection \<open>Rounding errors of the operations\<close>

lemma roundoff_pos: "0 < roundoff"
  by (simp add: roundoff_def)

lemma roundoff_le: "roundoff \<le> 1 / 8589934592"
  by (simp add: roundoff_def)

lemma approx_binary64:
  assumes "\<bar>x\<bar> \<le> 2 ^ 20"
  shows "approx roundoff (binary64 x) x"
  using binary64_error[OF assms] by (auto simp: approx_def roundoff_def)

lemma approx_exact: "approx 0 (Fin a) a"
  by (simp add: approx_def)

lemma approx_mono: "approx d f r \<Longrightarrow> d \<le> d' \<Longrightarrow> approx d' f r"
  by (auto simp: approx_def)

lemma approx_nonneg: "approx d f r \<Longrightarrow> 0 \<le> d"
  by (auto simp: approx_def)

lemma approx_uminus: "approx d f r \<Longrightarrow> approx d (- f) (- r)"
  by (auto simp: approx_def)

lemma approx_plus:
  assumes "approx d1 f1 r1" and "approx d2 f2 r2" and "\<bar>r1 + r2\<bar> + d1 + d2 \<le> 2 ^ 20"
  shows "approx (d1 + d2 + roundoff) (f1 + f2) (r1 + r2)"
proof -
  from assms(1,2) obtain a1 a2 where
    f: "f1 = Fin a1" "f2 = Fin a2" and a: "\<bar>a1 - r1\<bar> \<le> d1" "\<bar>a2 - r2\<bar> \<le> d2"
    by (auto simp: approx_def)
  have "\<bar>a1 + a2\<bar> \<le> 2 ^ 20"
    using a assms(3) by linarith
  from approx_binary64[OF this] obtain a where
    "binary64 (a1 + a2) = Fin a" and "\<bar>a - (a1 + a2)\<bar> \<le> roundoff"
    by (auto simp: approx_def)
  moreover from this(2) a have "\<bar>a - (r1 + r2)\<bar> \<le> d1 + d2 + roundoff"
    by linarith
  ultimately show ?thesis
    by (simp add: approx_def f)
qed

lemma approx_minus:
  assumes "approx d1 f1 r1" and "approx d2 f2 r2" and "\<bar>r1 - r2\<bar> + d1 + d2 \<le> 2 ^ 20"
  shows "approx (d1 + d2 + roundoff) (f1 - f2) (r1 - r2)"
  using approx_plus[OF assms(1) approx_uminus[OF assms(2)]] assms(3)
  by (simp add: minus_float64_def)

lemma approx_times_left:
  assumes "approx d f r" and "\<bar>c\<bar> \<le> C" and "C * (\<bar>r\<bar> + d) \<le> 2 ^ 20"
  shows "approx (C * d + roundoff) (Fin c * f) (c * r)"
proof -
  from assms(1) obtain a where f: "f = Fin a" and a: "\<bar>a - r\<bar> \<le> d"
    by (auto simp: approx_def)
  have C: "0 \<le> C" using assms(2) by linarith
  have "\<bar>a\<bar> \<le> \<bar>r\<bar> + d" using a by linarith
  then have "\<bar>c * a\<bar> \<le> C * (\<bar>r\<bar> + d)"
    unfolding abs_mult using assms(2) by (intro mult_mono) simp_all
  with assms(3) have "\<bar>c * a\<bar> \<le> 2 ^ 20" by linarith
  from approx_binary64[OF this] obtain p where
    p: "binary64 (c * a) = Fin p" and "\<bar>p - c * a\<bar> \<le> roundoff"
    by (auto simp: approx_def)
  moreover have "\<bar>c * a - c * r\<bar> \<le> C * d"
  proof -
    have "\<bar>c * a - c * r\<bar> = \<bar>c\<bar> * \<bar>a - r\<bar>"
      by (simp add: abs_mult flip: right_diff_distrib)
    also have "\<dots> \<le> C * d"
      using assms(2) a by (intro mult_mono) simp_all
    finally show ?thesis .
  qed
  ultimately have "\<bar>p - c * r\<bar> \<le> C * d + roundoff" by linarith
  with p show ?thesis
    by (simp add: approx_def f)
qed

lemma approx_times_right:
  assumes "approx d f r" and "\<bar>c\<bar> \<le> C" and "C * (\<bar>r\<bar> + d) \<le> 2 ^ 20"
  shows "approx (C * d + roundoff) (f * Fin c) (r * c)"
proof -
  have "f * Fin c = Fin c * f"
    by (cases f) (simp_all add: mult.commute)
  with approx_times_left[OF assms] show ?thesis
    by (simp add: mult.commute)
qed

lemma divide_ge1_le:
  assumes "0 \<le> (x::real)" and "1 \<le> n"
  shows "x / n \<le> x"
proof -
  have "x * 1 \<le> x * n"
    using assms by (intro mult_left_mono) simp_all
  with assms(2) show ?thesis
    by (simp add: pos_divide_le_eq)
qed

lemma approx_divide:
  assumes "approx d f r" and "1 \<le> n" and "\<bar>r\<bar> + d \<le> 2 ^ 20"
  shows "approx (d + roundoff) (true_divide f (Fin n)) (r / n)"
proof -
  from assms(1) obtain a where f: "f = Fin a" and a: "\<bar>a - r\<bar> \<le> d"
    by (auto simp: approx_def)
  have n: "0 < n" using assms(2) by linarith
  have "\<bar>a / n\<bar> = \<bar>a\<bar> / n"
    using n by (simp add: abs_divide)
  also have "\<dots> \<le> \<bar>a\<bar>"
    using assms(2) by (intro divide_ge1_le) simp_all
  also have "\<dots> \<le> 2 ^ 20" using a assms(3) by linarith
  finally have "\<bar>a / n\<bar> \<le> 2 ^ 20" .
  from approx_binary64[OF this] obtain p where
    p: "binary64 (a / n) = Fin p" and "\<bar>p - a / n\<bar> \<le> roundoff"
    by (auto simp: approx_def)
  moreover have "\<bar>a / n - r / n\<bar> \<le> d"
  proof -
    have "\<bar>a / n - r / n\<bar> = \<bar>a - r\<bar> / n"
      using n by (simp add: abs_divide flip: diff_divide_distrib)
    also have "\<dots> \<le> \<bar>a - r\<bar>"
      using assms(2) by (intro divide_ge1_le) simp_all
    finally show ?thesis using a by linarith
  qed
  ultimately have "\<bar>p - r / n\<bar> \<le> d + roundoff" by linarith
  with p n show ?thesis
    by (simp add: approx_def f)
qed

lemma approx_foldl:
  assumes "list_all2 (approx d) fs rs" and "approx e acc s" and "\<forall>r\<in>set rs. \<bar>r\<bar> \<le> B"
    and "\<bar>s\<bar> + real (length rs) * B + e + real (length rs) * (d + roundoff) \<le> 2 ^ 20"
  shows "approx (e + real (length rs) * (d + roundoff)) (foldl (+) acc fs) (s + sum_list rs)"
  using assms
proof (induction fs rs arbitrary: acc s e rule: list_all2_induct)
  case Nil
  then show ?case by simp
next
  case (Cons f fs r rs)
  have d: "0 \<le> d" using Cons.hyps(1) by (rule approx_nonneg)
  have B: "0 \<le> B" using Cons.prems(2) by fastforce
  have r: "\<bar>r\<bar> \<le> B" using Cons.prems(2) by simp
  have n: "0 \<le> real (length rs) * B" "0 \<le> real (length rs) * (d + roundoff)"
    using d B roundoff_pos by simp_all
  have bound: "\<bar>s\<bar> + (B + real (length rs) * B) + e + ((d + roundoff) + real (length rs) * (d + roundoff)) \<le> 2 ^ 20"
    using Cons.prems(3) by (simp add: algebra_simps)
  have "\<bar>s + r\<bar> + e + d \<le> 2 ^ 20"
    using bound r n roundoff_pos by linarith
  from approx_plus[OF Cons.prems(1) Cons.hyps(1) this]
  have acc: "approx (e + d + roundoff) (acc + f) (s + r)" .
  have "\<bar>s + r\<bar> + real (length rs) * B + (e + d + roundoff) + real (length rs) * (d + roundoff) \<le> 2 ^ 20"
    using bound r by linarith
  from Cons.IH[OF acc _ this] Cons.prems(2)
  have "approx (e + d + roundoff + real (length rs) * (d + roundoff)) (foldl (+) (acc + f) fs)
      (s + r + sum_list rs)" by simp
  then show ?case
    by (simp add: algebra_simps)
qed

lemma sum_list_abs_le:
  assumes "\<forall>r\<in>set rs. \<bar>r\<bar> \<le> (B::real)"
  shows "\<bar>sum_list rs\<bar> \<le> real (length rs) * B"
  using assms
proof (induction rs)
  case Nil
  show ?case by simp
next
  case (Cons r rs)
  then have "\<bar>r\<bar> \<le> B" and "\<bar>sum_list rs\<bar> \<le> real (length rs) * B" by simp_all
  then show ?case by (simp add: algebra_simps)
qed

lemma approx_mean:
  assumes "rs \<noteq> []" and "length rs < 8"
    and "list_all2 (approx d) fs rs" and "\<forall>r\<in>set rs. \<bar>r\<bar> \<le> B"
    and "7 * B + 7 * (d + roundoff) \<le> 2 ^ 20"
  shows "approx (7 * (d + roundoff) + roundoff) (mean fs) (avg rs)"
proof -
  have len: "length fs = length rs"
    using assms(3) by (rule list_all2_lengthD)
  have d: "0 \<le> d"
    using assms(1,3) by (cases rs; cases fs) (auto dest: approx_nonneg)
  have B: "0 \<le> B"
    using assms(1,4) by (cases rs) fastforce+
  have n7: "real (length rs) \<le> 7" and n1: "1 \<le> real (length rs)"
    using assms(1,2) by (simp_all add: Suc_le_eq)
  have nB: "real (length rs) * B \<le> 7 * B"
    using n7 B by (intro mult_right_mono) simp_all
  have nd: "real (length rs) * (d + roundoff) \<le> 7 * (d + roundoff)"
    using n7 d roundoff_pos by (intro mult_right_mono) simp_all
  have "\<bar>0::real\<bar> + real (length rs) * B + 0 + real (length rs) * (d + roundoff) \<le> 2 ^ 20"
    using nB nd assms(5) by linarith
  from approx_foldl[OF assms(3) approx_exact assms(4) this]
  have "approx (real (length rs) * (d + roundoff)) (foldl (+) (Fin 0) fs) (sum_list rs)"
    by simp
  then have sum: "approx (7 * (d + roundoff)) (add_reduce fs) (sum_list rs)"
    using nd assms(2) by (simp add: add_reduce_short len approx_mono)
  have "\<bar>sum_list rs\<bar> \<le> real (length rs) * B"
    by (rule sum_list_abs_le[OF assms(4)])
  with nB assms(5) roundoff_pos have "\<bar>sum_list rs\<bar> + 7 * (d + roundoff) \<le> 2 ^ 20"
    by linarith
  from approx_divide[OF sum n1 this] show ?thesis
    by (simp add: mean_def avg_def len)
qed

subsection \<open>Rounding errors of a pass\<close>

lemma avg_abs_le:
  assumes "rs \<noteq> []" and "\<forall>r\<in>set rs. \<bar>r\<bar> \<le> B"
  shows "\<bar>avg rs\<bar> \<le> B"
proof -
  have n: "0 < real (length rs)" using assms(1) by simp
  have "\<bar>sum_list rs\<bar> \<le> real (length rs) * B"
    by (rule sum_list_abs_le[OF assms(2)])
  then have "\<bar>sum_list rs\<bar> / real (length rs) \<le> B"
    using n by (simp add: pos_divide_le_eq mult.commute)
  then show ?thesis
    using n by (simp add: avg_def abs_divide)
qed

lemma abs_mult_le:
  assumes "\<bar>a\<bar> \<le> A" and "\<bar>b\<bar> \<le> (B::real)"
  shows "\<bar>a * b\<bar> \<le> A * B"
  unfolding abs_mult using assms by (intro mult_mono) simp_all

text \<open>The residual of one observation and its product with the input.\<close>

lemma residual_approx:
  assumes x: "\<bar>x\<bar> \<le> 32" and b: "\<bar>b0\<bar> \<le> 128" "\<bar>b1\<bar> \<le> 128"
    and r: "\<bar>y - (b0 + b1 * x)\<bar> \<le> 2112"
  shows "approx (3 * roundoff) (Fin y - (Fin b0 + Fin b1 * Fin x)) (y - (b0 + b1 * x))"
    and "approx (97 * roundoff) ((Fin y - (Fin b0 + Fin b1 * Fin x)) * Fin x)
           ((y - (b0 + b1 * x)) * x)"
    and "\<bar>(y - (b0 + b1 * x)) * x\<bar> \<le> 67584"
proof -
  note u = roundoff_pos roundoff_le
  have b1x: "\<bar>b1 * x\<bar> \<le> 128 * 32" by (rule abs_mult_le[OF b(2) x])
  have "\<bar>b1 * x\<bar> \<le> 2 ^ 20" using b1x by simp
  then have p: "approx roundoff (Fin b1 * Fin x) (b1 * x)"
    using approx_binary64 by simp
  have "\<bar>b0 + b1 * x\<bar> + 0 + roundoff \<le> 2 ^ 20"
    using b(1) b1x u by simp
  from approx_plus[OF approx_exact p this]
  have yh: "approx (2 * roundoff) (Fin b0 + Fin b1 * Fin x) (b0 + b1 * x)"
    by (simp del: plus_float64.simps times_float64.simps)
  have "\<bar>y - (b0 + b1 * x)\<bar> + 0 + 2 * roundoff \<le> 2 ^ 20"
    using r u by simp
  from approx_minus[OF approx_exact yh this]
  show e: "approx (3 * roundoff) (Fin y - (Fin b0 + Fin b1 * Fin x)) (y - (b0 + b1 * x))"
    by (simp del: plus_float64.simps times_float64.simps)
  have "32 * (\<bar>y - (b0 + b1 * x)\<bar> + 3 * roundoff) \<le> 2 ^ 20"
    using r u by simp
  from approx_times_right[OF e x this]
  show "approx (97 * roundoff) ((Fin y - (Fin b0 + Fin b1 * Fin x)) * Fin x)
           ((y - (b0 + b1 * x)) * x)"
    by (simp del: plus_float64.simps times_float64.simps)
  from abs_mult_le[OF r x]
  show "\<bar>(y - (b0 + b1 * x)) * x\<bar> \<le> 67584" by simp
qed

text \<open>
  The two means of one pass on any data of bounded size: the computed gradient is the
  negative mean of the residuals, and of the residuals times the inputs, formed in real
  arithmetic, up to rounding.
\<close>

lemma gradient_near_mean:
  assumes P: "P \<noteq> []" "length P < 8"
      "\<forall>p\<in>set P. \<bar>fst p\<bar> \<le> 32 \<and> \<bar>snd p - (b0 + b1 * fst p)\<bar> \<le> 2112"
    and b: "\<bar>b0\<bar> \<le> 128" "\<bar>b1\<bar> \<le> 128"
  shows "\<exists>g0 g1.
     gradient (map (\<lambda>p. Fin (fst p)) P) (map (\<lambda>p. Fin (snd p)) P) (Fin b0, Fin b1) = Inr (g0, g1) \<and>
     approx (29 * roundoff) g0 (- avg (map (\<lambda>p. snd p - (b0 + b1 * fst p)) P)) \<and>
     \<bar>avg (map (\<lambda>p. snd p - (b0 + b1 * fst p)) P)\<bar> \<le> 2112 \<and>
     approx (687 * roundoff) g1 (- avg (map (\<lambda>p. (snd p - (b0 + b1 * fst p)) * fst p) P)) \<and>
     \<bar>avg (map (\<lambda>p. (snd p - (b0 + b1 * fst p)) * fst p) P)\<bar> \<le> 67584"
proof -
  note u = roundoff_pos roundoff_le
  define rf where "rf = (\<lambda>p. Fin (snd p) - (Fin b0 + Fin b1 * Fin (fst p)))"
  define rho where "rho = (\<lambda>p::real \<times> real. snd p - (b0 + b1 * fst p))"
  let ?X = "map (\<lambda>p. Fin (fst p)) P"
  let ?Y = "map (\<lambda>p. Fin (snd p)) P"
  have len: "length ?Y = length ?X" by simp
  have es: "map2 (\<lambda>x y. y - (Fin b0 + Fin b1 * x)) ?X ?Y = map rf P"
    by (simp add: zip_map_map zip_same_conv_map rf_def
        del: plus_float64.simps times_float64.simps)
  have es_xs: "map2 (\<lambda>x y. (y - (Fin b0 + Fin b1 * x)) * x) ?X ?Y =
      map (\<lambda>p. rf p * Fin (fst p)) P"
    by (simp add: zip_map_map zip_same_conv_map rf_def
        del: plus_float64.simps times_float64.simps)
  have g: "gradient ?X ?Y (Fin b0, Fin b1) =
      Inr (- mean (map rf P), - mean (map (\<lambda>p. rf p * Fin (fst p)) P))"
    unfolding gradient_elementwise[OF len] es es_xs ..
  have a0: "list_all2 (approx (3 * roundoff)) (map rf P) (map rho P)"
    using P(3) residual_approx(1)[OF _ b]
    by (simp add: list_all2_map1 list_all2_map2 list_all2_same rf_def rho_def
        del: plus_float64.simps times_float64.simps)
  have r0: "\<forall>r\<in>set (map rho P). \<bar>r\<bar> \<le> 2112"
    using P(3) by (simp add: rho_def)
  have a1: "list_all2 (approx (97 * roundoff)) (map (\<lambda>p. rf p * Fin (fst p)) P)
      (map (\<lambda>p. rho p * fst p) P)"
    using P(3) residual_approx(2)[OF _ b]
    by (simp add: list_all2_map1 list_all2_map2 list_all2_same rf_def rho_def
        del: plus_float64.simps times_float64.simps)
  have r1: "\<forall>r\<in>set (map (\<lambda>p. rho p * fst p) P). \<bar>r\<bar> \<le> 67584"
    using P(3) residual_approx(3)[OF _ b] by (simp add: rho_def)
  have ne: "map rho P \<noteq> []" "map (\<lambda>p. rho p * fst p) P \<noteq> []" using P(1) by simp_all
  have l8: "length (map rho P) < 8" "length (map (\<lambda>p. rho p * fst p) P) < 8"
    using P(2) by simp_all
  have "7 * 2112 + 7 * (3 * roundoff + roundoff) \<le> (2::real) ^ 20"
    using u by simp
  from approx_mean[OF ne(1) l8(1) a0 r0 this]
  have m0: "approx (29 * roundoff) (mean (map rf P)) (avg (map rho P))" by simp
  have "7 * 67584 + 7 * (97 * roundoff + roundoff) \<le> (2::real) ^ 20"
    using u by simp
  from approx_mean[OF ne(2) l8(2) a1 r1 this]
  have m1: "approx (687 * roundoff) (mean (map (\<lambda>p. rf p * Fin (fst p)) P))
      (avg (map (\<lambda>p. rho p * fst p) P))"
    by simp
  from g approx_uminus[OF m0] approx_uminus[OF m1] avg_abs_le[OF ne(1) r0] avg_abs_le[OF ne(2) r1]
  show ?thesis
    unfolding rho_def by blast
qed

text \<open>The same on the contents of two arrays of equal length, with the errors spelled out.\<close>

lemma gradient_near_mean_residual:
  assumes "length Y = length X" and "X \<noteq> []" and "length X < 8"
    and "\<forall>p\<in>set (zip X Y). \<bar>fst p\<bar> \<le> 32 \<and> \<bar>snd p - (b0 + b1 * fst p)\<bar> \<le> 2112"
    and "\<bar>b0\<bar> \<le> 128" and "\<bar>b1\<bar> \<le> 128"
  shows "\<exists>g0 g1.
     gradient (map Fin X) (map Fin Y) (Fin b0, Fin b1) = Inr (Fin g0, Fin g1) \<and>
     \<bar>g0 - (- avg (map2 (\<lambda>x y. y - (b0 + b1 * x)) X Y))\<bar> \<le> 29 / 2 ^ 33 \<and>
     \<bar>g1 - (- avg (map2 (\<lambda>x y. (y - (b0 + b1 * x)) * x) X Y))\<bar> \<le> 687 / 2 ^ 33"
proof -
  have P: "zip X Y \<noteq> []" "length (zip X Y) < 8"
    using assms(1,2,3) by (cases X; cases Y; simp)+
  have X: "map (\<lambda>p. Fin (fst p)) (zip X Y) = map Fin X"
    and Y: "map (\<lambda>p. Fin (snd p)) (zip X Y) = map Fin Y"
    using assms(1) by (induction Y X rule: list_induct2) simp_all
  have m: "map (\<lambda>p. snd p - (b0 + b1 * fst p)) (zip X Y) = map2 (\<lambda>x y. y - (b0 + b1 * x)) X Y"
    "map (\<lambda>p. (snd p - (b0 + b1 * fst p)) * fst p) (zip X Y) =
      map2 (\<lambda>x y. (y - (b0 + b1 * x)) * x) X Y"
    by (simp_all add: case_prod_beta)
  from gradient_near_mean[OF P assms(4,5,6)] obtain g0 g1 where
    g: "gradient (map Fin X) (map Fin Y) (Fin b0, Fin b1) = Inr (g0, g1)"
    and a0: "approx (29 * roundoff) g0 (- avg (map2 (\<lambda>x y. y - (b0 + b1 * x)) X Y))"
    and a1: "approx (687 * roundoff) g1 (- avg (map2 (\<lambda>x y. (y - (b0 + b1 * x)) * x) X Y))"
    unfolding X Y m by blast
  have "29 * roundoff = 29 / 2 ^ 33" "687 * roundoff = 687 / 2 ^ 33"
    by (simp_all add: roundoff_def)
  with g a0 a1 show ?thesis
    by (auto simp: approx_def)
qed










section \<open>The update step\<close>



text \<open>
  Claim C2. Both coefficients of a pass are updated from one evaluation of the gradient,
  taken at the pair the pass started from: the update of \<open>beta_1\<close> does not see the new
  \<open>beta_0\<close>. (On the data of the witness, at rate \<open>1/2\<close>, the gradient at the starting pair
  \<open>(1, 1)\<close> is \<open>(-3/2, -5/2)\<close>; at \<open>(7/4, 1)\<close>, the pair with \<open>beta_0\<close> already updated, its
  second component would be \<open>-11/8\<close>. The pass uses \<open>-5/2\<close>.)
\<close>

theorem simultaneous_update:
  assumes "xs < length (heap w)" and "ys < length (heap w)"
  shows "fst (loop_body learning_rate xs ys (beta_0, beta_1) w) =
    (case gradient (heap w ! xs) (heap w ! ys) (beta_0, beta_1) of
       Inl e \<Rightarrow> Inl e
     | Inr (g0, g1) \<Rightarrow> Inr (beta_0 - learning_rate * g0, beta_1 - learning_rate * g1))"
  by (rule loop_body_gradient[OF assms])

theorem simultaneous_update_witness:
  "(0::nat) < length (heap \<lparr>heap = [[Fin 1, Fin 2], [Fin 3, Fin 5]], stdout = [], rng = ()\<rparr>) \<and>
   (1::nat) < length (heap \<lparr>heap = [[Fin 1, Fin 2], [Fin 3, Fin 5]], stdout = [], rng = ()\<rparr>) \<and>
   gradient [Fin 1, Fin 2] [Fin 3, Fin 5] (Fin 1, Fin 1) = Inr (Fin (- (3 / 2)), Fin (- (5 / 2))) \<and>
   gradient [Fin 1, Fin 2] [Fin 3, Fin 5] (Fin (7 / 4), Fin 1) =
     Inr (Fin (- (3 / 4)), Fin (- (11 / 8))) \<and>
   fst (loop_body (Fin (1 / 2)) 0 1 (Fin 1, Fin 1)
          \<lparr>heap = [[Fin 1, Fin 2], [Fin 3, Fin 5]], stdout = [], rng = ()\<rparr>) =
     Inr (Fin (1 - 1 / 2 * (- (3 / 2))), Fin (1 - 1 / 2 * (- (5 / 2))))"
  using simultaneous_update[where xs = 0 and ys = 1 and ?beta_0.0 = "Fin 1" and ?beta_1.0 = "Fin 1"
      and learning_rate = "Fin (1 / 2)"
      and w = "\<lparr>heap = [[Fin 1, Fin 2], [Fin 3, Fin 5]], stdout = [], rng = ()\<rparr>"]
  by (simp add: gradient.simps subtract_def multiply_def broadcast_def scalar_add_def
      scalar_multiply_def negative_def mean_def add_reduce_short minus_float64_def binary64_small)

section \<open>The true coefficients\<close>

text \<open>
  Claim C9 says that the true coefficients are a fixpoint of the update step for every
  observation set generated from them. It fails for the observation set with no
  observation: the means are \<open>NaN\<close> there, and so are both coefficients after the pass.
\<close>

theorem no_fixpoint_on_zero_observations:
  "gradient [] [] (Fin 6, Fin 2) = Inr (NaN, NaN) \<and>
   fst (loop_body (binary64 (1 / 10)) 0 1 (Fin 6, Fin 2)
          \<lparr>heap = [[], []], stdout = [], rng = ()\<rparr>) = Inr (NaN, NaN)"
  by (simp add: gradient_empty loop_body_gradient minus_times_NaN)

text \<open>
  It also fails when the prediction is rounded. The input \<open>x = 2\<^sup>5\<^sup>5 + 24\<close> and the output
  \<open>y = 8 + 3 x\<close> are both \<^verbatim>\<open>float64\<close> values. From \<open>(8, 3)\<close> the product \<open>3 x\<close> lies half
  way between two \<^verbatim>\<open>float64\<close> values and is rounded down by 8, adding 8 gives the same
  value again, and the residual is 16 instead of 0: the gradient is
  \<open>(-16, -16 x)\<close>.
\<close>

lemma no_fixpoint_under_rounding:
  "rounded (Fin 36028797018963992) \<and> rounded (Fin 108086391056891984) \<and>
   (108086391056891984::real) = 8 + 3 * 36028797018963992 \<and>
   gradient [Fin 36028797018963992] [Fin 108086391056891984] (Fin 8, Fin 3) =
     Inr (Fin (- 16), Fin (- 576460752303423872))"
proof -
  have x: "binary64 36028797018963992 = Fin 36028797018963992"
    by (rule binary64_exact_gen[where m = 4503599627370499 and j = 3]) simp_all
  have y: "binary64 108086391056891984 = Fin 108086391056891984"
    by (rule binary64_exact_gen[where m = 6755399441055749 and j = 4]) simp_all
  have "binary64 108086391056891976 =
      Fin (of_int (round_half_even (108086391056891976 / 2 powr of_int (56 - 52))) *
        2 powr of_int (56 - 52))"
    by (rule binary64_eval) simp_all
  also have "\<dots> = Fin 108086391056891968"
    by (simp add: round_half_even_def)
  finally have yhat: "binary64 108086391056891976 = Fin 108086391056891968" .
  have "binary64 (- 576460752303423872) = Fin (- 576460752303423872)"
    by (rule binary64_exact_gen[where m = "- 4503599627370499" and j = 7]) simp_all
  then have d: "binary64 576460752303423872 = Fin 576460752303423872"
    using binary64_minus[of "- 576460752303423872"] by simp
  have "gradient [Fin 36028797018963992] [Fin 108086391056891984] (Fin 8, Fin 3) =
     Inr (Fin (- 16), Fin (- 576460752303423872))"
    by (simp add: gradient.simps subtract_def multiply_def broadcast_def scalar_add_def
        scalar_multiply_def negative_def mean_def add_reduce_short minus_float64_def
        yhat binary64_small binary64_minus d)
  with x y show ?thesis by simp
qed

text \<open>
  Claim C9, amended. Take at least one observation, coefficients \<open>beta_0\<close> and \<open>beta_1\<close>
  that are \<^verbatim>\<open>float64\<close> values, and let each output be the \<^verbatim>\<open>float64\<close> value of
  \<open>beta_0 + beta_1 * x\<close> (the product rounded, then the sum rounded, as the pass computes
  its prediction), all of them finite. Then a pass started at \<open>(beta_0, beta_1)\<close> computes
  the gradient \<open>(0, 0)\<close> and ends with the same pair, for any finite learning rate.
\<close>

theorem true_coefficients_fixpoint:
  assumes "X \<noteq> []"
    and "xa < length (heap w)" and "ya < length (heap w)"
    and "heap w ! xa = map Fin X"
    and "heap w ! ya = map (\<lambda>x. Fin beta_0 + Fin beta_1 * Fin x) X"
    and "list_all isfinite (heap w ! ya)"
    and "rounded (Fin beta_0)" and "rounded (Fin beta_1)"
  shows "gradient (heap w ! xa) (heap w ! ya) (Fin beta_0, Fin beta_1) = Inr (Fin 0, Fin 0) \<and>
         fst (loop_body (Fin learning_rate) xa ya (Fin beta_0, Fin beta_1) w) =
           Inr (Fin beta_0, Fin beta_1)"
proof -
  have fin: "\<forall>x\<in>set X. isfinite (Fin beta_0 + Fin beta_1 * Fin x)"
    using assms(6) unfolding assms(5) by (simp add: list_all_iff del: plus_float64.simps times_float64.simps)
  have g: "gradient (heap w ! xa) (heap w ! ya) (Fin beta_0, Fin beta_1) = Inr (Fin 0, Fin 0)"
    unfolding assms(4,5) by (rule gradient_at_true_coefficients[OF assms(1) fin])
  show ?thesis
    by (simp add: loop_body_gradient[OF assms(2,3)] g step_at_zero_gradient[OF assms(7)]
        step_at_zero_gradient[OF assms(8)] del: times_float64.simps)
qed

theorem true_coefficients_fixpoint_witness:
  "[1, 2] \<noteq> ([]::real list) \<and>
   (0::nat) < length (heap \<lparr>heap = [[Fin 1, Fin 2], [Fin 8, Fin 10]], stdout = [], rng = ()\<rparr>) \<and>
   (1::nat) < length (heap \<lparr>heap = [[Fin 1, Fin 2], [Fin 8, Fin 10]], stdout = [], rng = ()\<rparr>) \<and>
   heap \<lparr>heap = [[Fin 1, Fin 2], [Fin 8, Fin 10]], stdout = [], rng = ()\<rparr> ! 0 = map Fin [1, 2] \<and>
   heap \<lparr>heap = [[Fin 1, Fin 2], [Fin 8, Fin 10]], stdout = [], rng = ()\<rparr> ! 1 =
     map (\<lambda>x. Fin 6 + Fin 2 * Fin x) [1, 2] \<and>
   list_all isfinite (heap \<lparr>heap = [[Fin 1, Fin 2], [Fin 8, Fin 10]], stdout = [], rng = ()\<rparr> ! 1) \<and>
   rounded (Fin 6) \<and> rounded (Fin 2) \<and>
   gradient [Fin 1, Fin 2] [Fin 8, Fin 10] (Fin 6, Fin 2) = Inr (Fin 0, Fin 0) \<and>
   fst (loop_body (binary64 (1 / 10)) 0 1 (Fin 6, Fin 2)
          \<lparr>heap = [[Fin 1, Fin 2], [Fin 8, Fin 10]], stdout = [], rng = ()\<rparr>) = Inr (Fin 6, Fin 2)"
  using true_coefficients_fixpoint[where X = "[1, 2]" and xa = 0 and ya = 1
      and ?beta_0.0 = 6 and ?beta_1.0 = 2
      and learning_rate = "3602879701896397 / 36028797018963968"
      and w = "\<lparr>heap = [[Fin 1, Fin 2], [Fin 8, Fin 10]], stdout = [], rng = ()\<rparr>"]
  by (simp add: binary64_small binary64_tenth)

section \<open>What a call returns\<close>

text \<open>
  Claim C3 says that the call returns the final coefficient vector and takes the learning
  rate and the iteration count as parameters. The function has no \<^verbatim>\<open>return\<close>
  statement: on the data below (two observations of \<open>y = 3 + 9 x\<close>, initial draw
  \<open>(4, 7)\<close>) the value returned is \<^verbatim>\<open>None\<close>.
\<close>

theorem learn_returns_None:
  "fst (learn_w_gradient_descent (\<lambda>g. ((4, 7), g)) 0 1
         \<lparr>heap = [[Fin 1, Fin 2], [Fin 12, Fin 21]], stdout = [], rng = ()\<rparr>) = Inr PNone"
  by (simp add: learn_result compatible_def)

text \<open>
  Claim C3, amended. The learning rate \<open>0.1\<close> and the count \<open>5000\<close> are constants of the
  body; the only parameters are the two arrays. When their lengths are compatible, the
  call returns \<^verbatim>\<open>None\<close> and prints, after the two lines with the initial draw, two lines
  with the coefficient pair that 5000 update steps produce from that draw.
\<close>

theorem learn_prints_final_coefficients:
  assumes "xs < length (heap w)" and "ys < length (heap w)"
    and "compatible (heap w ! ys) (heap w ! xs)"
  shows "\<exists>c. descend 5000 (binary64 (1 / 10)) (heap w ! xs) (heap w ! ys)
               (Fin (of_int (fst (fst (randint (rng w))))),
                Fin (of_int (snd (fst (randint (rng w)))))) = Inr c \<and>
             fst (learn_w_gradient_descent randint xs ys w) = Inr PNone \<and>
             stdout (snd (learn_w_gradient_descent randint xs ys w)) =
               stdout w @ initial_lines (fst (randint (rng w))) @ final_lines c"
proof -
  from descend_compatible[OF assms(3)] obtain c0 c1 where
    c: "descend 5000 (binary64 (1 / 10)) (heap w ! xs) (heap w ! ys)
               (Fin (of_int (fst (fst (randint (rng w))))),
                Fin (of_int (snd (fst (randint (rng w)))))) = Inr (c0, c1)" by blast
  then show ?thesis
    using assms(3)
    by (simp add: learn_result[OF assms(1,2)] learn_stdout[OF assms(1,2)])
qed

theorem learn_prints_final_coefficients_witness:
  "(0::nat) < length (heap \<lparr>heap = [[Fin 1, Fin 2], [Fin 12, Fin 21]], stdout = [], rng = ()\<rparr>) \<and>
   (1::nat) < length (heap \<lparr>heap = [[Fin 1, Fin 2], [Fin 12, Fin 21]], stdout = [], rng = ()\<rparr>) \<and>
   compatible [Fin 12, Fin 21] [Fin 1, Fin 2] \<and>
   take 2 (stdout (snd (learn_w_gradient_descent (\<lambda>g. ((4, 7), g)) 0 1
        \<lparr>heap = [[Fin 1, Fin 2], [Fin 12, Fin 21]], stdout = [], rng = ()\<rparr>))) =
     [(''Initial gradient descent beta_0: {}'', PInt 4),
      (''Initial gradient descent beta_1: {}'', PInt 7)] \<and>
   length (stdout (snd (learn_w_gradient_descent (\<lambda>g. ((4, 7), g)) 0 1
        \<lparr>heap = [[Fin 1, Fin 2], [Fin 12, Fin 21]], stdout = [], rng = ()\<rparr>))) = 4"
  using learn_prints_final_coefficients[where xs = 0 and ys = 1
      and randint = "\<lambda>g. ((4, 7), g)"
      and w = "\<lparr>heap = [[Fin 1, Fin 2], [Fin 12, Fin 21]], stdout = [], rng = ()\<rparr>"]
  by (auto simp: compatible_def initial_lines_def final_lines_def)

section \<open>How long the loop runs\<close>

text \<open>
  Claim C4 says that the loop makes all its passes on every input. With two inputs and
  three outputs numpy cannot form \<^verbatim>\<open>ys - yhats\<close>: the first pass raises
  \<^verbatim>\<open>ValueError\<close> after building \<^verbatim>\<open>beta_1 * xs\<close> and \<^verbatim>\<open>yhats\<close>, and the loop is left
  with no update made.
\<close>

theorem loop_left_in_first_pass:
  "fst (for_loop [0..<5000] (binary64 (1 / 10)) 0 1 (Fin 1, Fin 1)
         \<lparr>heap = [[Fin 1, Fin 2], [Fin 1, Fin 2, Fin 3]], stdout = [], rng = ()\<rparr>) = Inl ValueError \<and>
   length (heap (snd (for_loop [0..<5000] (binary64 (1 / 10)) 0 1 (Fin 1, Fin 1)
         \<lparr>heap = [[Fin 1, Fin 2], [Fin 1, Fin 2, Fin 3]], stdout = [], rng = ()\<rparr>))) = 2 + 2"
proof -
  let ?w = "\<lparr>heap = [[Fin 1, Fin 2], [Fin 1, Fin 2, Fin 3]], stdout = [], rng = ()\<rparr>"
  have valid: "0 < length (heap ?w)" "1 < length (heap ?w)" by simp_all
  have no: "\<not> compatible (heap ?w ! 1) (heap ?w ! 0)" by (simp add: compatible_def)
  have "fst (for_loop [0..<5000] (binary64 (1 / 10)) 0 1 (Fin 1, Fin 1) ?w) =
      descend (Suc 4999) (binary64 (1 / 10)) (heap ?w ! 0) (heap ?w ! 1) (Fin 1, Fin 1)"
    using for_loop_value[OF valid, of "[0..<5000]"] by simp
  then have "fst (for_loop [0..<5000] (binary64 (1 / 10)) 0 1 (Fin 1, Fin 1) ?w) = Inl ValueError"
    by (simp only: descend_incompatible[OF no])
  moreover from for_loop_world[OF valid, of "[0..<5000]" "binary64 (1 / 10)" "(Fin 1, Fin 1)"] no
  have "length (heap (snd (for_loop [0..<5000] (binary64 (1 / 10)) 0 1 (Fin 1, Fin 1) ?w))) = 2 + 2"
    by auto
  ultimately show ?thesis by simp
qed

text \<open>
  Claim C4, amended. On arrays of compatible lengths, \<^verbatim>\<open>for _ in range(n)\<close> makes
  exactly \<open>n\<close> passes and ends normally (the source has \<open>n = 5000\<close>): its result is the
  pair that \<open>n\<close> update steps produce, whatever the learning rate and the starting pair,
  \<open>NaN\<close> included, and each pass leaves its six new arrays on the heap. Nothing in the loop
  looks at the size of the coefficients, of the residuals or of the gradient.
\<close>

theorem loop_runs_every_pass:
  assumes "xs < length (heap w)" and "ys < length (heap w)"
    and "compatible (heap w ! ys) (heap w ! xs)"
  shows "\<exists>c. fst (for_loop [0..<n] lr xs ys b w) = Inr c \<and>
             descend n lr (heap w ! xs) (heap w ! ys) b = Inr c \<and>
             length (heap (snd (for_loop [0..<n] lr xs ys b w))) = length (heap w) + 6 * n"
proof -
  from descend_compatible[OF assms(3)] obtain c0 c1 where
    "descend n lr (heap w ! xs) (heap w ! ys) b = Inr (c0, c1)" by blast
  moreover from for_loop_world[OF assms(1,2), of "[0..<n]" lr b] assms(3)
  have "length (heap (snd (for_loop [0..<n] lr xs ys b w))) = length (heap w) + 6 * n"
    by auto
  ultimately show ?thesis
    using for_loop_value[OF assms(1,2), of "[0..<n]" lr b] by simp
qed

theorem loop_runs_every_pass_witness:
  "(0::nat) < length (heap \<lparr>heap = [[Fin 1, Fin 2], [Fin 8, Fin 10]], stdout = [], rng = ()\<rparr>) \<and>
   (1::nat) < length (heap \<lparr>heap = [[Fin 1, Fin 2], [Fin 8, Fin 10]], stdout = [], rng = ()\<rparr>) \<and>
   compatible [Fin 8, Fin 10] [Fin 1, Fin 2] \<and>
   fst (for_loop [0..<5000] (binary64 (1 / 10)) 0 1 (Fin 6, Fin 2)
          \<lparr>heap = [[Fin 1, Fin 2], [Fin 8, Fin 10]], stdout = [], rng = ()\<rparr>) = Inr (Fin 6, Fin 2) \<and>
   length (heap (snd (for_loop [0..<5000] (binary64 (1 / 10)) 0 1 (Fin 6, Fin 2)
          \<lparr>heap = [[Fin 1, Fin 2], [Fin 8, Fin 10]], stdout = [], rng = ()\<rparr>))) = 30002 \<and>
   compatible [] [] \<and>
   fst (for_loop [0..<5000] (binary64 (1 / 10)) 0 1 (Fin 1, Fin 1)
          \<lparr>heap = [[], []], stdout = [], rng = ()\<rparr>) = Inr (NaN, NaN) \<and>
   length (heap (snd (for_loop [0..<5000] (binary64 (1 / 10)) 0 1 (Fin 1, Fin 1)
          \<lparr>heap = [[], []], stdout = [], rng = ()\<rparr>))) = 30002"
proof -
  have stay: "descend 5000 (binary64 (1 / 10)) [Fin 1, Fin 2] [Fin 8, Fin 10] (Fin 6, Fin 2) =
      Inr (Fin 6, Fin 2)"
    using descend_at_true_coefficients[where X = "[1, 2]" and ?b0.0 = 6 and ?b1.0 = 2
        and n = 5000 and l = "3602879701896397 / 36028797018963968"]
    by (simp add: binary64_tenth binary64_small)
  have nan: "descend 5000 (binary64 (1 / 10)) [] [] (Fin 1, Fin 1) = Inr (NaN, NaN)"
    using descend_empty[of 4999 "binary64 (1 / 10)" "Fin 1" "Fin 1"] by simp
  show ?thesis
    using loop_runs_every_pass[where xs = 0 and ys = 1 and n = 5000 and lr = "binary64 (1 / 10)"
        and b = "(Fin 6, Fin 2)" and w = "\<lparr>heap = [[Fin 1, Fin 2], [Fin 8, Fin 10]], stdout = [], rng = ()\<rparr>"]
      loop_runs_every_pass[where xs = 0 and ys = 1 and n = 5000 and lr = "binary64 (1 / 10)"
        and b = "(Fin 1, Fin 1)" and w = "\<lparr>heap = [[], []], stdout = [], rng = ()\<rparr>"]
    by (auto simp: compatible_def stay nan)
qed

section \<open>Errors\<close>

text \<open>
  Claim C5 says that the trainer fails with \<open>InvalidArgument\<close>, before any pass of the
  loop, exactly on malformed input: zero observations, mismatched lengths, a non-positive
  learning rate or iteration count. The source checks nothing. With zero observations the
  call ends normally: every mean is taken over an empty array, and the two final lines
  show \<open>NaN\<close>.
\<close>

theorem no_error_on_zero_observations:
  "fst (learn_w_gradient_descent (\<lambda>g. ((1, 1), g)) 0 1
         \<lparr>heap = [[], []], stdout = [], rng = ()\<rparr>) = Inr PNone \<and>
   stdout (snd (learn_w_gradient_descent (\<lambda>g. ((1, 1), g)) 0 1
         \<lparr>heap = [[], []], stdout = [], rng = ()\<rparr>)) =
     [(''Initial gradient descent beta_0: {}'', PInt 1),
      (''Initial gradient descent beta_1: {}'', PInt 1),
      (''Final gradient descent beta_0: {}'', PFloat NaN),
      (''Final gradient descent beta_1: {}'' @ [CHR 0x0A], PFloat NaN)]"
proof -
  have "descend (Suc 4999) (binary64 (1 / 10)) [] [] (Fin 1, Fin 1) = Inr (NaN, NaN)"
    by (rule descend_empty)
  then show ?thesis
    by (simp add: learn_result learn_stdout compatible_def initial_lines_def final_lines_def)
qed

text \<open>
  Claim C5, amended. The one error a call can raise is numpy's \<^verbatim>\<open>ValueError\<close>, and it is
  raised exactly when the lengths of \<open>xs\<close> and \<open>ys\<close> differ and neither is 1. It comes from
  \<^verbatim>\<open>ys - yhats\<close> in the first pass of the loop: by then the initial coefficients have
  been drawn and printed and two arrays have been built, and no coefficient has been
  updated. Every other input, zero observations included, ends normally. The learning
  rate and the iteration count are constants and cannot be malformed.
\<close>

theorem learn_raises_iff_incompatible:
  assumes "xs < length (heap w)" and "ys < length (heap w)"
  shows "if compatible (heap w ! ys) (heap w ! xs)
         then fst (learn_w_gradient_descent randint xs ys w) = Inr PNone
         else fst (learn_w_gradient_descent randint xs ys w) = Inl ValueError \<and>
              stdout (snd (learn_w_gradient_descent randint xs ys w)) =
                stdout w @ initial_lines (fst (randint (rng w))) \<and>
              length (heap (snd (learn_w_gradient_descent randint xs ys w))) =
                length (heap w) + 2"
proof (cases "compatible (heap w ! ys) (heap w ! xs)")
  case True
  then show ?thesis by (simp add: learn_result[OF assms])
next
  case False
  have "descend (Suc 4999) (binary64 (1 / 10)) (heap w ! xs) (heap w ! ys)
      (Fin (of_int (fst (fst (randint (rng w))))), Fin (of_int (snd (fst (randint (rng w)))))) =
      Inl ValueError"
    by (rule descend_incompatible[OF False])
  then have "stdout (snd (learn_w_gradient_descent randint xs ys w)) =
      stdout w @ initial_lines (fst (randint (rng w)))"
    by (simp add: learn_stdout[OF assms])
  moreover from learn_world[OF assms, of randint] False
  have "length (heap (snd (learn_w_gradient_descent randint xs ys w))) = length (heap w) + 2"
    by auto
  ultimately show ?thesis using False by (simp add: learn_result[OF assms])
qed

theorem learn_raises_iff_incompatible_witness:
  "(0::nat) < length (heap \<lparr>heap = [[Fin 1, Fin 2, Fin 3], [Fin 5, Fin 7]], stdout = [], rng = ()\<rparr>) \<and>
   (1::nat) < length (heap \<lparr>heap = [[Fin 1, Fin 2, Fin 3], [Fin 5, Fin 7]], stdout = [], rng = ()\<rparr>) \<and>
   learn_w_gradient_descent (\<lambda>g. ((2, 3), g)) 0 1
       \<lparr>heap = [[Fin 1, Fin 2, Fin 3], [Fin 5, Fin 7]], stdout = [], rng = ()\<rparr> =
     (Inl ValueError,
      snd (learn_w_gradient_descent (\<lambda>g. ((2, 3), g)) 0 1
        \<lparr>heap = [[Fin 1, Fin 2, Fin 3], [Fin 5, Fin 7]], stdout = [], rng = ()\<rparr>)) \<and>
   stdout (snd (learn_w_gradient_descent (\<lambda>g. ((2, 3), g)) 0 1
       \<lparr>heap = [[Fin 1, Fin 2, Fin 3], [Fin 5, Fin 7]], stdout = [], rng = ()\<rparr>)) =
     [(''Initial gradient descent beta_0: {}'', PInt 2),
      (''Initial gradient descent beta_1: {}'', PInt 3)]"
  using learn_raises_iff_incompatible[where xs = 0 and ys = 1 and randint = "\<lambda>g. ((2, 3), g)"
      and w = "\<lparr>heap = [[Fin 1, Fin 2, Fin 3], [Fin 5, Fin 7]], stdout = [], rng = ()\<rparr>"]
  by (auto simp: compatible_def initial_lines_def prod_eq_iff)


section \<open>Effects\<close>

text \<open>
  Claim C7 says that a call does no input or output and touches no global state. A call
  prints, and it advances numpy's global random generator: below, the output and the
  generator state after the call both differ from those before.
\<close>

theorem learn_prints_and_draws:
  "stdout (snd (learn_w_gradient_descent (\<lambda>g. ((1, 1), Suc g)) 0 1
      \<lparr>heap = [[Fin 1], [Fin 2]], stdout = [], rng = 0\<rparr>)) \<noteq>
     stdout \<lparr>heap = [[Fin 1], [Fin 2]], stdout = [], rng = 0::nat\<rparr> \<and>
   rng (snd (learn_w_gradient_descent (\<lambda>g. ((1, 1), Suc g)) 0 1
      \<lparr>heap = [[Fin 1], [Fin 2]], stdout = [], rng = 0\<rparr>)) \<noteq>
     rng \<lparr>heap = [[Fin 1], [Fin 2]], stdout = [], rng = 0::nat\<rparr>"
proof -
  let ?w = "\<lparr>heap = [[Fin 1], [Fin 2]], stdout = [], rng = 0::nat\<rparr>"
  have valid: "0 < length (heap ?w)" "1 < length (heap ?w)" by simp_all
  from learn_world[OF valid, of "\<lambda>g. ((1, 1), Suc g)"] show ?thesis
    by (auto simp: compatible_def)
qed

text \<open>
  Claim C7, amended. A call has effects outside its coefficients. It writes to standard
  output: the two lines with the initial coefficients and, unless it raises, the two
  lines with the final coefficients, after everything printed before. It advances the
  global random generator by the one \<^verbatim>\<open>randint\<close> draw. It changes no array that existed
  before the call. (What numpy may report on standard error is not covered.)
\<close>

theorem learn_effects:
  assumes "xs < length (heap w)" and "ys < length (heap w)"
  shows "(\<exists>final. stdout (snd (learn_w_gradient_descent randint xs ys w)) =
              stdout w @ initial_lines (fst (randint (rng w))) @ final \<and>
            length final = (if compatible (heap w ! ys) (heap w ! xs) then 2 else 0)) \<and>
         rng (snd (learn_w_gradient_descent randint xs ys w)) = snd (randint (rng w)) \<and>
         take (length (heap w)) (heap (snd (learn_w_gradient_descent randint xs ys w))) = heap w"
proof -
  let ?d = "descend 5000 (binary64 (1 / 10)) (heap w ! xs) (heap w ! ys)
      (Fin (of_int (fst (fst (randint (rng w))))), Fin (of_int (snd (fst (randint (rng w))))))"
  let ?final = "case ?d of Inl e \<Rightarrow> [] | Inr c \<Rightarrow> final_lines c"
  have out: "stdout (snd (learn_w_gradient_descent randint xs ys w)) =
      stdout w @ initial_lines (fst (randint (rng w))) @ ?final"
    by (rule learn_stdout[OF assms])
  have "length ?final = (if compatible (heap w ! ys) (heap w ! xs) then 2 else 0)"
  proof (cases "compatible (heap w ! ys) (heap w ! xs)")
    case True
    from descend_compatible[OF True] obtain c0 c1 where "?d = Inr (c0, c1)" by blast
    with True show ?thesis by (simp add: final_lines_def)
  next
    case False
    have "descend (Suc 4999) (binary64 (1 / 10)) (heap w ! xs) (heap w ! ys)
        (Fin (of_int (fst (fst (randint (rng w))))), Fin (of_int (snd (fst (randint (rng w)))))) =
        Inl ValueError"
      by (rule descend_incompatible[OF False])
    with False show ?thesis by simp
  qed
  with out have "\<exists>final. stdout (snd (learn_w_gradient_descent randint xs ys w)) =
              stdout w @ initial_lines (fst (randint (rng w))) @ final \<and>
            length final = (if compatible (heap w ! ys) (heap w ! xs) then 2 else 0)"
    by blast
  moreover from learn_world[OF assms, of randint]
  have "rng (snd (learn_w_gradient_descent randint xs ys w)) = snd (randint (rng w))"
    and "take (length (heap w)) (heap (snd (learn_w_gradient_descent randint xs ys w))) = heap w"
    by auto
  ultimately show ?thesis by blast
qed

theorem learn_effects_witness:
  "(0::nat) < length (heap \<lparr>heap = [[Fin 1], [Fin 2]], stdout = [], rng = 0::nat\<rparr>) \<and>
   (1::nat) < length (heap \<lparr>heap = [[Fin 1], [Fin 2]], stdout = [], rng = 0::nat\<rparr>) \<and>
   rng (snd (learn_w_gradient_descent (\<lambda>g. ((1, 1), Suc g)) 0 1
      \<lparr>heap = [[Fin 1], [Fin 2]], stdout = [], rng = 0\<rparr>)) = 1 \<and>
   length (stdout (snd (learn_w_gradient_descent (\<lambda>g. ((1, 1), Suc g)) 0 1
      \<lparr>heap = [[Fin 1], [Fin 2]], stdout = [], rng = 0\<rparr>))) = 4 \<and>
   take 2 (stdout (snd (learn_w_gradient_descent (\<lambda>g. ((1, 1), Suc g)) 0 1
      \<lparr>heap = [[Fin 1], [Fin 2]], stdout = [], rng = 0\<rparr>))) =
     [(''Initial gradient descent beta_0: {}'', PInt 1),
      (''Initial gradient descent beta_1: {}'', PInt 1)] \<and>
   take 2 (heap (snd (learn_w_gradient_descent (\<lambda>g. ((1, 1), Suc g)) 0 1
      \<lparr>heap = [[Fin 1], [Fin 2]], stdout = [], rng = 0\<rparr>))) = [[Fin 1], [Fin 2]]"
  using learn_effects[where xs = 0 and ys = 1 and randint = "\<lambda>g. ((1, 1), Suc g)"
      and w = "\<lparr>heap = [[Fin 1], [Fin 2]], stdout = [], rng = 0::nat\<rparr>"]
  by (auto simp: compatible_def initial_lines_def numeral_2_eq_2)

text \<open>
  Claim C8. When a call ends, normally or not, the arrays \<open>xs\<close> and \<open>ys\<close> hold what they
  held before the call, and so does every other array that existed then: the call only
  reads them, and every numpy operator it uses builds a new array.
\<close>

theorem learn_preserves_observations:
  assumes "xs < length (heap w)" and "ys < length (heap w)"
  shows "heap (snd (learn_w_gradient_descent randint xs ys w)) ! xs = heap w ! xs \<and>
         heap (snd (learn_w_gradient_descent randint xs ys w)) ! ys = heap w ! ys \<and>
         take (length (heap w)) (heap (snd (learn_w_gradient_descent randint xs ys w))) = heap w"
  using learn_world[OF assms, of randint] assms by (auto simp: nth_append)

theorem learn_preserves_observations_witness:
  "(0::nat) < length (heap \<lparr>heap = [[Fin 1, Fin 2], [Fin 12, Fin 21]], stdout = [], rng = ()\<rparr>) \<and>
   (1::nat) < length (heap \<lparr>heap = [[Fin 1, Fin 2], [Fin 12, Fin 21]], stdout = [], rng = ()\<rparr>) \<and>
   heap (snd (learn_w_gradient_descent (\<lambda>g. ((4, 7), g)) 0 1
        \<lparr>heap = [[Fin 1, Fin 2], [Fin 12, Fin 21]], stdout = [], rng = ()\<rparr>)) ! 0 = [Fin 1, Fin 2] \<and>
   heap (snd (learn_w_gradient_descent (\<lambda>g. ((4, 7), g)) 0 1
        \<lparr>heap = [[Fin 1, Fin 2], [Fin 12, Fin 21]], stdout = [], rng = ()\<rparr>)) ! 1 = [Fin 12, Fin 21]"
  using learn_preserves_observations[where xs = 0 and ys = 1 and randint = "\<lambda>g. ((4, 7), g)"
      and w = "\<lparr>heap = [[Fin 1, Fin 2], [Fin 12, Fin 21]], stdout = [], rng = ()\<rparr>"]
  by simp


section \<open>Recovering the true coefficients\<close>





end
